theory Spec2Isabelle
  imports Main
begin

section \<open>Data model of the sync router (src/server/routers/sync.ts)\<close>

text \<open>
  A number arriving on the wire (\<^verbatim>\<open>z.number()\<close>). Timestamps are epoch
  milliseconds, so the finite values are integers; \<open>NaN\<close> is kept because the
  handler tests numbers for truthiness, and \<open>NaN\<close> is, with zero, a falsy number.
\<close>

datatype number = Num int | NaN

text \<open>\<^verbatim>\<open>zTask\<close>: a task as it travels on the wire. An optional field that is absent
  (\<^verbatim>\<open>undefined\<close>) is \<open>None\<close>.\<close>

record wire_task =
  w_id :: string
  w_name :: string
  w_icon :: string
  is_done :: bool
  is_urgent :: "bool option"
  w_comment :: "string option"
  created_at :: int
  updated_at :: int

text \<open>
  A row of the task table, with the columns the handlers write and read. The insert of
  line 90 passes \<^verbatim>\<open>is_urgent\<close> and \<^verbatim>\<open>comment\<close> on as they came, possibly
  \<^verbatim>\<open>undefined\<close>; the value the table then holds is the one its schema gives a column
  that was not supplied. That schema is not part of these sources, so the row records
  \<open>None\<close> for "not supplied (the schema's default)".
\<close>

record stored_task =
  task_id :: string
  name :: string
  icon :: string
  isDone :: bool
  isUrgent :: "bool option"
  comment :: "string option"
  createdAt :: int
  updatedAt :: int
  serverCreatedAt :: int
  serverUpdatedAt :: int

text \<open>An entry of the local array \<^verbatim>\<open>updatedTasks\<close> (lines 76-88 and 115-127): the
  keys \<^verbatim>\<open>isUrgent\<close> and \<^verbatim>\<open>comment\<close> are spread in only when the inbound value is
  not \<^verbatim>\<open>undefined\<close>.\<close>

record patch =
  p_id :: string
  p_name :: string
  p_icon :: string
  p_isDone :: bool
  p_isUrgent :: "bool option"
  p_comment :: "string option"
  p_updatedAt :: int

text \<open>\<^verbatim>\<open>zDatabaseChanges\<close>.\<close>

record task_changes =
  created :: "wire_task list option"
  updated :: "wire_task list option"
  deleted :: "string list option"

record database_changes =
  tasks :: task_changes

record push_input =
  changes :: database_changes
  push_lastPulledAt :: "number option"

text \<open>What a store operation can throw, and what the two procedures surface.\<close>

datatype store_error = UniqueConstraintViolation | RecordNotFound

datatype error = ExtendedTRPCError store_error | SyntaxError | TypeError

text \<open>
  The world outside the handler: the task table, and the number of times
  \<^verbatim>\<open>Date.now()\<close> has been called. The clock itself is a function from the index of a
  call to the value that call returns.
\<close>

type_synonym clock = "nat \<Rightarrow> int"

record world =
  table :: "stored_task list"
  reads :: nat

definition Date_now :: "clock \<Rightarrow> world \<Rightarrow> int \<times> world" where
  "Date_now clk w = (clk (reads w), w\<lparr>reads := Suc (reads w)\<rparr>)"

section \<open>The record store\<close>

text \<open>\<^verbatim>\<open>task.findUnique({ where: { id } })\<close>.\<close>

definition findUnique :: "stored_task list \<Rightarrow> string \<Rightarrow> stored_task option" where
  "findUnique db i = find (\<lambda>r. task_id r = i) db"

text \<open>\<^verbatim>\<open>task.createMany({ data })\<close>: the id is the primary key, so a row whose id is
  already in the table, or twice in the batch, makes the call throw.\<close>

definition createMany :: "stored_task list \<Rightarrow> stored_task list \<Rightarrow> store_error + stored_task list" where
  "createMany db rows =
     (if (\<exists>r \<in> set rows. task_id r \<in> set (map task_id db)) \<or> \<not> distinct (map task_id rows)
      then Inl UniqueConstraintViolation
      else Inr (db @ rows))"

text \<open>The \<^verbatim>\<open>data\<close> of line 133, \<^verbatim>\<open>{ ...task, serverUpdatedAt: now }\<close>, written onto a
  row: the keys present overwrite their columns, every other column stays.\<close>

definition apply_data :: "patch \<Rightarrow> int \<Rightarrow> stored_task \<Rightarrow> stored_task" where
  "apply_data p now r =
     r\<lparr>task_id := p_id p,
       name := p_name p,
       icon := p_icon p,
       isDone := p_isDone p,
       isUrgent := (case p_isUrgent p of Some u \<Rightarrow> Some u | None \<Rightarrow> isUrgent r),
       comment := (case p_comment p of Some c \<Rightarrow> Some c | None \<Rightarrow> comment r),
       updatedAt := p_updatedAt p,
       serverUpdatedAt := now\<rparr>"

text \<open>\<^verbatim>\<open>task.update({ data, where: { id } })\<close>: throws when no row has the id.\<close>

definition task_update :: "int \<Rightarrow> stored_task list \<Rightarrow> patch \<Rightarrow> store_error + stored_task list" where
  "task_update now db p =
     (case findUnique db (p_id p) of
        None \<Rightarrow> Inl RecordNotFound
      | Some _ \<Rightarrow> Inr (map (\<lambda>r. if task_id r = p_id p then apply_data p now r else r) db))"

text \<open>Lines 131-142: one update per entry of \<^verbatim>\<open>updatedTasks\<close>, issued in array order
  on the transaction's connection; the first one that throws rejects the whole.\<close>

fun updateQueries :: "int \<Rightarrow> stored_task list \<Rightarrow> patch list \<Rightarrow> store_error + stored_task list" where
  "updateQueries now db [] = Inr db"
| "updateQueries now db (p # ps) =
     (case task_update now db p of
        Inl e \<Rightarrow> Inl e
      | Inr db' \<Rightarrow> updateQueries now db' ps)"

section \<open>pushChanges\<close>

text \<open>The object pushed at lines 76-88, for a create whose id is already stored.\<close>

definition patch_of_created :: "wire_task \<Rightarrow> patch" where
  "patch_of_created createdTask =
     \<lparr>p_id = w_id createdTask,
      p_name = w_name createdTask,
      p_icon = w_icon createdTask,
      p_isDone = is_done createdTask,
      p_isUrgent = (if is_urgent createdTask \<noteq> None then is_urgent createdTask else None),
      p_comment = (if w_comment createdTask \<noteq> None then w_comment createdTask else None),
      p_updatedAt = updated_at createdTask\<rparr>"

text \<open>The object pushed at lines 90-101, for a genuine create.\<close>

definition row_of_created :: "wire_task \<Rightarrow> int \<Rightarrow> stored_task" where
  "row_of_created createdTask now =
     \<lparr>task_id = w_id createdTask,
      name = w_name createdTask,
      icon = w_icon createdTask,
      isDone = is_done createdTask,
      isUrgent = is_urgent createdTask,
      comment = w_comment createdTask,
      createdAt = created_at createdTask,
      updatedAt = updated_at createdTask,
      serverCreatedAt = now,
      serverUpdatedAt = now\<rparr>"

text \<open>The object pushed at lines 115-127, for an inbound update.\<close>

definition patch_of_updated :: "wire_task \<Rightarrow> patch" where
  "patch_of_updated updatedTask =
     \<lparr>p_id = w_id updatedTask,
      p_name = w_name updatedTask,
      p_icon = w_icon updatedTask,
      p_isDone = is_done updatedTask,
      p_isUrgent = (if is_urgent updatedTask \<noteq> None then is_urgent updatedTask else None),
      p_comment = (if w_comment updatedTask \<noteq> None then w_comment updatedTask else None),
      p_updatedAt = updated_at updatedTask\<rparr>"

text \<open>
  The loop of lines 65-103 over the inbound creates, with the two local arrays
  \<^verbatim>\<open>createdTasks\<close> and \<^verbatim>\<open>updatedTasks\<close> as accumulators. Every lookup reads the
  table as it was when the transaction began: nothing is inserted before line 106. The
  warning of line 73 goes to the logger, which the model leaves out.
\<close>

fun stage :: "int \<Rightarrow> stored_task list \<Rightarrow> wire_task list \<Rightarrow>
    stored_task list \<times> patch list \<Rightarrow> stored_task list \<times> patch list" where
  "stage now db [] acc = acc"
| "stage now db (createdTask # rest) (createdTasks, updatedTasks) =
     (case findUnique db (w_id createdTask) of
        Some existingTask \<Rightarrow>
          stage now db rest (createdTasks, updatedTasks @ [patch_of_created createdTask])
      | None \<Rightarrow>
          stage now db rest (createdTasks @ [row_of_created createdTask now], updatedTasks))"

text \<open>Lines 61-104 and 110-129: the two \<^verbatim>\<open>for\<close> statements, each under its guard.\<close>

definition staged :: "int \<Rightarrow> stored_task list \<Rightarrow> push_input \<Rightarrow> stored_task list \<times> patch list" where
  "staged now db inp =
     (case created (tasks (changes inp)) of
        Some cs \<Rightarrow> if length cs > 0 then stage now db cs ([], []) else ([], [])
      | None \<Rightarrow> ([], []))"

definition inbound_updates :: "push_input \<Rightarrow> patch list" where
  "inbound_updates inp =
     (case updated (tasks (changes inp)) of
        Some us \<Rightarrow> if length us > 0 then map patch_of_updated us else []
      | None \<Rightarrow> [])"

text \<open>
  The mutation of lines 53-149. The transaction either commits the table it built or,
  when a store call throws, leaves the table as it was and surfaces the cause wrapped in
  an \<^verbatim>\<open>ExtendedTRPCError\<close>. \<^verbatim>\<open>Date.now()\<close> is called once, at line 59.
\<close>

definition pushChanges :: "clock \<Rightarrow> world \<Rightarrow> push_input \<Rightarrow> (error + unit) \<times> world" where
  "pushChanges clk w inp =
     (let (now, w1) = Date_now clk w;
          (createdTasks, updatedTasks) = staged now (table w1) inp
      in case createMany (table w1) createdTasks of
           Inl e \<Rightarrow> (Inl (ExtendedTRPCError e), w1)
         | Inr db1 \<Rightarrow>
             (case updateQueries now db1 (updatedTasks @ inbound_updates inp) of
                Inl e \<Rightarrow> (Inl (ExtendedTRPCError e), w1)
              | Inr db2 \<Rightarrow> (Inr (), w1\<lparr>table := db2\<rparr>)))"

section \<open>\<^verbatim>\<open>JSON.parse\<close> and the comparison \<^verbatim>\<open>migration?.from < 2\<close>\<close>

text \<open>
  Line 205 hands the migration string to \<^verbatim>\<open>JSON.parse\<close> and line 206 compares the
  \<^verbatim>\<open>from\<close> property of the result with 2. Both are the language's own: the grammar is
  that of ECMA-404, and the comparison coerces its left operand to a number. A JavaScript
  string is a sequence of 16-bit code units; the text handed in is a \<open>string\<close> whose
  characters are the code units below 256, and a decoded string is a list of code units.

  A JSON number is kept as its decimal, \<open>Decimal m e\<close> for \<open>m * 10 ^ e\<close>; the double it
  stands for is the one nearest to that decimal.
\<close>

type_synonym ustring = "nat list"

datatype decimal = Decimal int int

datatype json =
    JNull
  | JBool bool
  | JNumber decimal
  | JString ustring
  | JArray "json list"
  | JObject "(ustring \<times> json) list"

datatype token =
    TLBrace | TRBrace | TLBracket | TRBracket | TColon | TComma
  | TString ustring | TNumber decimal | TTrue | TFalse | TNull

subsection \<open>Tokens\<close>

definition is_digit :: "char \<Rightarrow> bool" where
  "is_digit c = (c \<in> set ''0123456789'')"

definition digits_value :: "string \<Rightarrow> int" where
  "digits_value ds = foldl (\<lambda>n c. 10 * n + (of_char c - 48)) 0 ds"

definition hex_value :: "char \<Rightarrow> nat option" where
  "hex_value c =
     (if is_digit c then Some (of_char c - 48)
      else if c \<in> set ''abcdef'' then Some (of_char c - 87)
      else if c \<in> set ''ABCDEF'' then Some (of_char c - 55)
      else None)"

definition hex4 :: "char \<Rightarrow> char \<Rightarrow> char \<Rightarrow> char \<Rightarrow> nat option" where
  "hex4 a b c d =
     (case (hex_value a, hex_value b, hex_value c, hex_value d) of
        (Some x, Some y, Some z, Some u) \<Rightarrow> Some (((x * 16 + y) * 16 + z) * 16 + u)
      | _ \<Rightarrow> None)"

definition escape_value :: "char \<Rightarrow> nat option" where
  "escape_value e =
     (if e = CHR 0x22 then Some 0x22
      else if e = CHR 0x5C then Some 0x5C
      else if e = CHR ''/'' then Some 0x2F
      else if e = CHR ''b'' then Some 8
      else if e = CHR ''f'' then Some 12
      else if e = CHR ''n'' then Some 10
      else if e = CHR ''r'' then Some 13
      else if e = CHR ''t'' then Some 9
      else None)"

text \<open>The characters of a string after its opening quote: an unescaped character below
  U+0020 is not allowed, an escape is one of the eight single letters or \<^verbatim>\<open>u\<close> and four
  hexadecimal digits; the result is the decoded string and the text after the closing
  quote.\<close>

fun lex_string :: "string \<Rightarrow> ustring \<Rightarrow> (ustring \<times> string) option" where
  "lex_string [] acc = None"
| "lex_string (c # cs) acc =
     (if c = CHR 0x22 then Some (rev acc, cs)
      else if c = CHR 0x5C then
        (case cs of
           [] \<Rightarrow> None
         | e # cs1 \<Rightarrow>
             if e = CHR ''u'' then
               (case cs1 of
                  h1 # h2 # h3 # h4 # cs2 \<Rightarrow>
                    (case hex4 h1 h2 h3 h4 of
                       Some u \<Rightarrow> lex_string cs2 (u # acc)
                     | None \<Rightarrow> None)
                | _ \<Rightarrow> None)
             else
               (case escape_value e of
                  Some u \<Rightarrow> lex_string cs1 (u # acc)
                | None \<Rightarrow> None))
      else if (of_char c :: nat) < 0x20 then None
      else lex_string cs (of_char c # acc))"

text \<open>A number: an optional minus, an integer part without a leading zero (or a single
  zero), an optional fraction with at least one digit, an optional exponent with at least
  one digit.\<close>

definition lex_sign :: "string \<Rightarrow> bool \<times> string" where
  "lex_sign cs = (case cs of c # r \<Rightarrow> if c = CHR ''-'' then (True, r) else (False, cs) | [] \<Rightarrow> (False, cs))"

definition lex_int_part :: "string \<Rightarrow> (string \<times> string) option" where
  "lex_int_part cs =
     (case cs of
        [] \<Rightarrow> None
      | c # r \<Rightarrow>
          if c = CHR ''0'' then Some ([c], r)
          else if is_digit c then Some (takeWhile is_digit cs, dropWhile is_digit cs)
          else None)"

definition lex_fraction :: "string \<Rightarrow> (string \<times> string) option" where
  "lex_fraction cs =
     (case cs of
        [] \<Rightarrow> Some ([], cs)
      | c # r \<Rightarrow>
          if c = CHR ''.'' then
            (if takeWhile is_digit r = [] then None
             else Some (takeWhile is_digit r, dropWhile is_digit r))
          else Some ([], cs))"

definition lex_exponent :: "string \<Rightarrow> (int \<times> string) option" where
  "lex_exponent cs =
     (case cs of
        [] \<Rightarrow> Some (0, cs)
      | c # r \<Rightarrow>
          if c = CHR ''e'' \<or> c = CHR ''E'' then
            (let (neg, r1) =
               (case r of
                  s # r' \<Rightarrow> if s = CHR ''-'' then (True, r') else if s = CHR ''+'' then (False, r') else (False, r)
                | [] \<Rightarrow> (False, r))
             in if takeWhile is_digit r1 = [] then None
                else Some ((if neg then - digits_value (takeWhile is_digit r1)
                            else digits_value (takeWhile is_digit r1)),
                           dropWhile is_digit r1))
          else Some (0, cs))"

definition lex_number :: "string \<Rightarrow> (decimal \<times> string) option" where
  "lex_number cs =
     (let (neg, cs1) = lex_sign cs in
      case lex_int_part cs1 of
        None \<Rightarrow> None
      | Some (ip, cs2) \<Rightarrow>
          (case lex_fraction cs2 of
             None \<Rightarrow> None
           | Some (fp, cs3) \<Rightarrow>
               (case lex_exponent cs3 of
                  None \<Rightarrow> None
                | Some (ex, cs4) \<Rightarrow>
                    Some (Decimal ((if neg then - 1 else 1) * digits_value (ip @ fp))
                            (ex - int (length fp)), cs4))))"

definition is_json_ws :: "char \<Rightarrow> bool" where
  "is_json_ws c = (c = CHR 0x20 \<or> c = CHR 0x09 \<or> c = CHR 0x0A \<or> c = CHR 0x0D)"

text \<open>Each lexer consumes input, which is what makes the tokenizer terminate.\<close>

lemma lex_string_length: "lex_string cs acc = Some (s, rest) \<Longrightarrow> length rest < length cs"
proof (induction "length cs" arbitrary: cs acc rule: less_induct)
  case less
  from less.prems obtain c cs0 where cs: "cs = c # cs0" by (cases cs) simp_all
  have IH: "\<And>xs a. length xs \<le> length cs0 \<Longrightarrow> lex_string xs a = Some (s, rest) \<Longrightarrow>
      length rest < length cs"
  proof -
    fix xs a
    assume l: "length xs \<le> length cs0" and r: "lex_string xs a = Some (s, rest)"
    from l cs have "length xs < length cs" by simp
    from less.hyps [OF this r] l cs show "length rest < length cs" by simp
  qed
  show ?case
  proof (cases "c = CHR 0x22")
    case True
    with less.prems cs show ?thesis by simp
  next
    case nq: False
    show ?thesis
    proof (cases "c = CHR 0x5C")
      case True
      with nq less.prems cs obtain e cs1 where cs0: "cs0 = e # cs1"
        by (cases cs0) simp_all
      show ?thesis
      proof (cases "e = CHR ''u''")
        case u: True
        with nq True cs cs0 less.prems obtain h1 h2 h3 h4 cs2 n
          where cs1: "cs1 = h1 # h2 # h3 # h4 # cs2"
            and r: "lex_string cs2 (n # acc) = Some (s, rest)"
          by (auto split: list.splits option.splits)
        have "length cs2 \<le> length cs0" using cs0 cs1 by simp
        from IH [OF this r] show ?thesis .
      next
        case nu: False
        with nq True cs cs0 less.prems obtain n
          where r: "lex_string cs1 (n # acc) = Some (s, rest)"
          by (auto split: option.splits)
        have "length cs1 \<le> length cs0" using cs0 by simp
        from IH [OF this r] show ?thesis .
      qed
    next
      case nb: False
      with nq less.prems cs have r: "lex_string cs0 (of_char c # acc) = Some (s, rest)"
        by (auto split: if_splits)
      from IH [OF _ r] show ?thesis by simp
    qed
  qed
qed

lemma lex_sign_length: "lex_sign cs = (neg, rest) \<Longrightarrow> length rest \<le> length cs"
  by (auto simp: lex_sign_def split: list.splits if_splits)

lemma lex_int_part_length: "lex_int_part cs = Some (ip, rest) \<Longrightarrow> length rest < length cs"
  by (auto simp: lex_int_part_def less_Suc_eq_le length_dropWhile_le split: list.splits if_splits)

lemma lex_fraction_length: "lex_fraction cs = Some (fp, rest) \<Longrightarrow> length rest \<le> length cs"
  by (auto simp: lex_fraction_def le_SucI length_dropWhile_le split: list.splits if_splits)

lemma lex_exponent_length: "lex_exponent cs = Some (ex, rest) \<Longrightarrow> length rest \<le> length cs"
  by (auto simp: lex_exponent_def Let_def le_SucI length_dropWhile_le
      intro: le_trans [OF length_dropWhile_le]
      split: list.splits if_splits prod.splits)

lemma lex_number_length: "lex_number cs = Some (d, rest) \<Longrightarrow> length rest < length cs"
proof -
  assume a: "lex_number cs = Some (d, rest)"
  obtain neg cs1 where s: "lex_sign cs = (neg, cs1)" by (cases "lex_sign cs")
  from a s obtain ip cs2 where i: "lex_int_part cs1 = Some (ip, cs2)"
    by (auto simp: lex_number_def split: option.splits)
  from a s i obtain fp cs3 where f: "lex_fraction cs2 = Some (fp, cs3)"
    by (auto simp: lex_number_def split: option.splits)
  from a s i f obtain ex where e: "lex_exponent cs3 = Some (ex, rest)"
    by (auto simp: lex_number_def split: option.splits)
  from lex_sign_length [OF s] lex_int_part_length [OF i] lex_fraction_length [OF f]
    lex_exponent_length [OF e]
  show ?thesis by linarith
qed

text \<open>The text as a list of tokens, or \<open>None\<close> where no token starts.\<close>

function tokenize :: "string \<Rightarrow> token list \<Rightarrow> token list option" where
  "tokenize [] acc = Some (rev acc)"
| "tokenize (c # cs) acc =
     (if is_json_ws c then tokenize cs acc
      else if c = CHR ''{'' then tokenize cs (TLBrace # acc)
      else if c = CHR ''}'' then tokenize cs (TRBrace # acc)
      else if c = CHR ''['' then tokenize cs (TLBracket # acc)
      else if c = CHR '']'' then tokenize cs (TRBracket # acc)
      else if c = CHR '':'' then tokenize cs (TColon # acc)
      else if c = CHR '','' then tokenize cs (TComma # acc)
      else if c = CHR 0x22 then
        (case lex_string cs [] of
           None \<Rightarrow> None
         | Some (s, rest) \<Rightarrow> tokenize rest (TString s # acc))
      else if c = CHR ''-'' \<or> is_digit c then
        (case lex_number (c # cs) of
           None \<Rightarrow> None
         | Some (d, rest) \<Rightarrow> tokenize rest (TNumber d # acc))
      else if take 4 (c # cs) = ''true'' then tokenize (drop 3 cs) (TTrue # acc)
      else if take 5 (c # cs) = ''false'' then tokenize (drop 4 cs) (TFalse # acc)
      else if take 4 (c # cs) = ''null'' then tokenize (drop 3 cs) (TNull # acc)
      else None)"
  by pat_completeness auto
termination
proof (relation "measure (\<lambda>(cs, acc). length cs)", goal_cases)
  case 1
  show ?case by simp
next
  case (9 c cs acc x2 s rest)
  then show ?case using lex_string_length [of cs "[]" s rest] by simp
next
  case (10 c cs acc x2 d rest)
  then show ?case using lex_number_length [of "c # cs" d rest] by simp
qed simp_all

subsection \<open>Values\<close>

text \<open>
  The grammar over tokens, as a pushdown automaton: the stack holds the arrays and objects
  that are still open, the phase says what may come next. A value is complete when the
  tokens end in phase \<open>Done\<close> with an empty stack; anything else is a
  \<^verbatim>\<open>SyntaxError\<close>, here \<open>None\<close>.
\<close>

datatype phase = ExpectValue | ElementOrClose | KeyOrClose | ExpectKey | ExpectColon | Done json

datatype frame =
    FArray "json list"
  | FObject "(ustring \<times> json) list"
  | FMember "(ustring \<times> json) list" ustring

definition begin_value :: "token \<Rightarrow> frame list \<Rightarrow> (phase \<times> frame list) option" where
  "begin_value tok st =
     (case tok of
        TLBracket \<Rightarrow> Some (ElementOrClose, FArray [] # st)
      | TLBrace \<Rightarrow> Some (KeyOrClose, FObject [] # st)
      | TString s \<Rightarrow> Some (Done (JString s), st)
      | TNumber d \<Rightarrow> Some (Done (JNumber d), st)
      | TTrue \<Rightarrow> Some (Done (JBool True), st)
      | TFalse \<Rightarrow> Some (Done (JBool False), st)
      | TNull \<Rightarrow> Some (Done JNull, st)
      | _ \<Rightarrow> None)"

definition begin_member :: "token \<Rightarrow> frame list \<Rightarrow> (phase \<times> frame list) option" where
  "begin_member tok st =
     (case (tok, st) of
        (TString k, FObject ms # st') \<Rightarrow> Some (ExpectColon, FMember ms k # st')
      | _ \<Rightarrow> None)"

definition step :: "phase \<Rightarrow> frame list \<Rightarrow> token \<Rightarrow> (phase \<times> frame list) option" where
  "step ph st tok =
     (case ph of
        ExpectValue \<Rightarrow> begin_value tok st
      | ElementOrClose \<Rightarrow>
          (case (tok, st) of
             (TRBracket, FArray es # st') \<Rightarrow> Some (Done (JArray (rev es)), st')
           | _ \<Rightarrow> begin_value tok st)
      | KeyOrClose \<Rightarrow>
          (case (tok, st) of
             (TRBrace, FObject ms # st') \<Rightarrow> Some (Done (JObject (rev ms)), st')
           | _ \<Rightarrow> begin_member tok st)
      | ExpectKey \<Rightarrow> begin_member tok st
      | ExpectColon \<Rightarrow> (case tok of TColon \<Rightarrow> Some (ExpectValue, st) | _ \<Rightarrow> None)
      | Done v \<Rightarrow>
          (case st of
             FArray es # st' \<Rightarrow>
               (case tok of
                  TComma \<Rightarrow> Some (ExpectValue, FArray (v # es) # st')
                | TRBracket \<Rightarrow> Some (Done (JArray (rev (v # es))), st')
                | _ \<Rightarrow> None)
           | FMember ms k # st' \<Rightarrow>
               (case tok of
                  TComma \<Rightarrow> Some (ExpectKey, FObject ((k, v) # ms) # st')
                | TRBrace \<Rightarrow> Some (Done (JObject (rev ((k, v) # ms))), st')
                | _ \<Rightarrow> None)
           | _ \<Rightarrow> None))"

fun run :: "phase \<Rightarrow> frame list \<Rightarrow> token list \<Rightarrow> json option" where
  "run ph st [] = (case (ph, st) of (Done v, []) \<Rightarrow> Some v | _ \<Rightarrow> None)"
| "run ph st (tok # toks) =
     (case step ph st tok of
        None \<Rightarrow> None
      | Some (ph', st') \<Rightarrow> run ph' st' toks)"

definition JSON_parse :: "string \<Rightarrow> json option" where
  "JSON_parse text = (case tokenize text [] of None \<Rightarrow> None | Some toks \<Rightarrow> run ExpectValue [] toks)"

subsection \<open>Reading \<^verbatim>\<open>from\<close> and comparing it with 2\<close>

text \<open>
  \<^verbatim>\<open>migration?.from\<close>: only an object parsed from the text can own a property
  \<^verbatim>\<open>from\<close> (the last of several members with that key); \<^verbatim>\<open>null\<close>, and every
  other value, gives \<^verbatim>\<open>undefined\<close>, here \<open>None\<close>.
\<close>

datatype jsnum = NotANumber | PosInfinity | NegInfinity | Dec decimal

definition from_key :: ustring where
  "from_key = map of_char ''from''"

definition get_from :: "json \<Rightarrow> json option" where
  "get_from v = (case v of JObject ms \<Rightarrow> map_of (rev ms) from_key | _ \<Rightarrow> None)"

text \<open>
  \<^verbatim>\<open>x < 2\<close> converts \<^verbatim>\<open>x\<close> to a number first. A string is trimmed of white space
  and line terminators and read as a numeric literal: empty is 0, then a binary, octal or
  hexadecimal integer, or a signed decimal or \<^verbatim>\<open>Infinity\<close>; anything else is
  \<^verbatim>\<open>NaN\<close>.
\<close>

definition is_str_ws :: "nat \<Rightarrow> bool" where
  "is_str_ws u =
     (u \<in> set [0x09, 0x0A, 0x0B, 0x0C, 0x0D, 0x20, 0xA0, 0x1680, 0x2028, 0x2029,
                0x202F, 0x205F, 0x3000, 0xFEFF]
      \<or> (0x2000 \<le> u \<and> u \<le> 0x200A))"

definition trim :: "ustring \<Rightarrow> ustring" where
  "trim s = rev (dropWhile is_str_ws (rev (dropWhile is_str_ws s)))"

definition digit_of :: "nat \<Rightarrow> nat option" where
  "digit_of u =
     (if 0x30 \<le> u \<and> u \<le> 0x39 then Some (u - 0x30)
      else if 0x61 \<le> u \<and> u \<le> 0x66 then Some (u - 0x57)
      else if 0x41 \<le> u \<and> u \<le> 0x46 then Some (u - 0x37)
      else None)"

definition is_radix_digit :: "nat \<Rightarrow> nat \<Rightarrow> bool" where
  "is_radix_digit base u = (case digit_of u of Some v \<Rightarrow> v < base | None \<Rightarrow> False)"

definition radix_value :: "nat \<Rightarrow> ustring \<Rightarrow> int" where
  "radix_value base ds =
     foldl (\<lambda>n u. int base * n + (case digit_of u of Some v \<Rightarrow> int v | None \<Rightarrow> 0)) 0 ds"

definition non_decimal_literal :: "ustring \<Rightarrow> int option" where
  "non_decimal_literal s =
     (case s of
        z # x # ds \<Rightarrow>
          (let base = (if x \<in> set [0x78, 0x58] then 16
                       else if x \<in> set [0x6F, 0x4F] then 8
                       else if x \<in> set [0x62, 0x42] then 2
                       else (0::nat))
           in if z = 0x30 \<and> base \<noteq> 0 \<and> ds \<noteq> [] \<and> list_all (is_radix_digit base) ds
              then Some (radix_value base ds) else None)
      | _ \<Rightarrow> None)"

definition exponent_part :: "ustring \<Rightarrow> int option" where
  "exponent_part s =
     (case s of
        [] \<Rightarrow> Some 0
      | c # r \<Rightarrow>
          if c \<in> set [0x65, 0x45] then
            (let (neg, ds) =
               (case r of
                  g # r' \<Rightarrow> if g = 0x2D then (True, r') else if g = 0x2B then (False, r') else (False, r)
                | [] \<Rightarrow> (False, r))
             in if ds \<noteq> [] \<and> list_all (is_radix_digit 10) ds
                then Some (if neg then - radix_value 10 ds else radix_value 10 ds)
                else None)
          else None)"

definition unsigned_decimal :: "ustring \<Rightarrow> jsnum option" where
  "unsigned_decimal s =
     (if s = map of_char ''Infinity'' then Some PosInfinity
      else
        (let ip = takeWhile (is_radix_digit 10) s;
             r1 = dropWhile (is_radix_digit 10) s;
             (fp, r2) =
               (case r1 of
                  c # r \<Rightarrow>
                    if c = 0x2E
                    then (takeWhile (is_radix_digit 10) r, dropWhile (is_radix_digit 10) r)
                    else ([], r1)
                | [] \<Rightarrow> ([], r1))
         in if ip = [] \<and> fp = [] then None
            else (case exponent_part r2 of
                    None \<Rightarrow> None
                  | Some ex \<Rightarrow>
                      Some (Dec (Decimal (radix_value 10 (ip @ fp)) (ex - int (length fp)))))))"

definition negate :: "jsnum \<Rightarrow> jsnum" where
  "negate x =
     (case x of
        NotANumber \<Rightarrow> NotANumber
      | PosInfinity \<Rightarrow> NegInfinity
      | NegInfinity \<Rightarrow> PosInfinity
      | Dec (Decimal m e) \<Rightarrow> Dec (Decimal (- m) e))"

definition signed_decimal :: "ustring \<Rightarrow> jsnum option" where
  "signed_decimal s =
     (case s of
        [] \<Rightarrow> None
      | c # r \<Rightarrow>
          if c = 0x2B then unsigned_decimal r
          else if c = 0x2D then map_option negate (unsigned_decimal r)
          else unsigned_decimal s)"

definition StringToNumber :: "ustring \<Rightarrow> jsnum" where
  "StringToNumber s =
     (let t = trim s in
      if t = [] then Dec (Decimal 0 0)
      else (case non_decimal_literal t of
              Some n \<Rightarrow> Dec (Decimal n 0)
            | None \<Rightarrow> (case signed_decimal t of Some x \<Rightarrow> x | None \<Rightarrow> NotANumber)))"

text \<open>
  An object or an array is first converted to a primitive, through its
  \<^verbatim>\<open>valueOf\<close> and \<^verbatim>\<open>toString\<close>. The \<^verbatim>\<open>valueOf\<close> an object inherits returns the
  object itself, and a member of a parsed object is never a function, so everything rests
  on \<^verbatim>\<open>toString\<close>: an object with a member of that name has no callable one and the
  conversion throws a \<^verbatim>\<open>TypeError\<close>; any other object becomes the string
  \<^verbatim>\<open>[object Object]\<close>. An array becomes its elements joined by commas, each element
  converted to a string in turn (\<^verbatim>\<open>null\<close> as the empty string), so it throws when one of
  its elements does.
\<close>

definition toString_key :: ustring where
  "toString_key = map of_char ''toString''"

fun ToPrimitive_throws :: "json \<Rightarrow> bool" where
  "ToPrimitive_throws (JObject ms) = (toString_key \<in> set (map fst ms))"
| "ToPrimitive_throws (JArray es) = (\<exists>e \<in> set es. ToPrimitive_throws e)"
| "ToPrimitive_throws JNull = False"
| "ToPrimitive_throws (JBool b) = False"
| "ToPrimitive_throws (JNumber d) = False"
| "ToPrimitive_throws (JString s) = False"

text \<open>
  The number of a value whose conversion to a primitive does not throw. \<^verbatim>\<open>null\<close> is 0,
  \<^verbatim>\<open>true\<close> is 1, \<^verbatim>\<open>false\<close> is 0. The string \<^verbatim>\<open>[object Object]\<close> is no number.
  Of an array, no element gives the empty string, one element gives that element's string,
  and two or more give a string with a comma in it, which is no number.
\<close>

fun number_of :: "json \<Rightarrow> jsnum" where
  "number_of JNull = Dec (Decimal 0 0)"
| "number_of (JBool b) = Dec (Decimal (if b then 1 else 0) 0)"
| "number_of (JNumber d) = Dec d"
| "number_of (JString s) = StringToNumber s"
| "number_of (JObject ms) = NotANumber"
| "number_of (JArray []) = Dec (Decimal 0 0)"
| "number_of (JArray [e]) =
     (case e of
        JNull \<Rightarrow> Dec (Decimal 0 0)
      | JBool b \<Rightarrow> NotANumber
      | JObject ms \<Rightarrow> NotANumber
      | _ \<Rightarrow> number_of e)"
| "number_of (JArray (e # e' # es)) = NotANumber"

definition ToNumber :: "json \<Rightarrow> error + jsnum" where
  "ToNumber v = (if ToPrimitive_throws v then Inl TypeError else Inr (number_of v))"

text \<open>
  Whether the double nearest to \<open>m * 10 ^ e\<close> is below 2. The doubles next to 2 are
  \<^verbatim>\<open>2 - 2^-52\<close> and 2 itself, and the decimal half way between them rounds to 2, so the
  double is below 2 exactly when the decimal is below \<^verbatim>\<open>2 - 2^-53\<close>. For an integer
  that is the plain comparison with 2.
\<close>

fun decimal_less_than_2 :: "decimal \<Rightarrow> bool" where
  "decimal_less_than_2 (Decimal m e) =
     (if 0 \<le> e then m * 10 ^ nat e < 2
      else m * 2 ^ 53 < (2 ^ 54 - 1) * 10 ^ nat (- e))"

text \<open>\<^verbatim>\<open>x < 2\<close>, for \<^verbatim>\<open>x\<close> what \<^verbatim>\<open>migration?.from\<close> gave: \<^verbatim>\<open>undefined\<close> is
  \<^verbatim>\<open>NaN\<close>, and no comparison with \<^verbatim>\<open>NaN\<close> holds.\<close>

definition less_than_2 :: "json option \<Rightarrow> error + bool" where
  "less_than_2 x =
     (case x of
        None \<Rightarrow> Inr False
      | Some v \<Rightarrow>
          (case ToNumber v of
             Inl e \<Rightarrow> Inl e
           | Inr (Dec d) \<Rightarrow> Inr (decimal_less_than_2 d)
           | Inr NegInfinity \<Rightarrow> Inr True
           | Inr _ \<Rightarrow> Inr False))"

section \<open>pullChanges\<close>

record pull_input =
  lastPulledAt :: "number option"
  schemaVersion :: number
  migration :: "string option"

record pull_output =
  out_changes :: database_changes
  timestamp :: int

text \<open>Lines 174-177: \<^verbatim>\<open>!!input.lastPulledAt\<close> is false for \<^verbatim>\<open>null\<close>, for zero and
  for \<^verbatim>\<open>NaN\<close>; the watermark is then left at 1.\<close>

definition safeLastPulledAt :: "pull_input \<Rightarrow> int" where
  "safeLastPulledAt inp =
     (case lastPulledAt inp of
        None \<Rightarrow> 1
      | Some NaN \<Rightarrow> 1
      | Some (Num n) \<Rightarrow> if n \<noteq> 0 then n else 1)"

text \<open>The two queries of lines 179-202, and the unfiltered one of line 207. Rows come
  back in table order.\<close>

definition findMany_created :: "stored_task list \<Rightarrow> int \<Rightarrow> stored_task list" where
  "findMany_created db safe = filter (\<lambda>r. serverCreatedAt r > safe) db"

definition findMany_updated :: "stored_task list \<Rightarrow> int \<Rightarrow> stored_task list" where
  "findMany_updated db safe =
     filter (\<lambda>r. serverUpdatedAt r > safe \<and> serverCreatedAt r \<le> safe) db"

definition findMany :: "stored_task list \<Rightarrow> stored_task list" where
  "findMany db = db"

text \<open>
  Lines 204-209. \<^verbatim>\<open>input?.schemaVersion >= 2\<close> is false for \<^verbatim>\<open>NaN\<close>, and
  \<^verbatim>\<open>input?.migration\<close> is false for \<^verbatim>\<open>null\<close> and for the empty string; only past
  both is the string parsed. The result says whether \<^verbatim>\<open>updatedTasks\<close> is to be
  replaced by the whole table; a text that does not parse throws, and so does a
  \<^verbatim>\<open>from\<close> that cannot be converted to a primitive.
\<close>

definition migration_override :: "pull_input \<Rightarrow> error + bool" where
  "migration_override inp =
     (case (schemaVersion inp, migration inp) of
        (Num v, Some text) \<Rightarrow>
          if v \<ge> 2 \<and> text \<noteq> [] then
            (case JSON_parse text of
               None \<Rightarrow> Inl SyntaxError
             | Some m \<Rightarrow> less_than_2 (get_from m))
          else Inr False
      | _ \<Rightarrow> Inr False)"

text \<open>Lines 215-234: a row as it is sent.\<close>

definition to_wire :: "stored_task \<Rightarrow> wire_task" where
  "to_wire task =
     \<lparr>w_id = task_id task,
      w_name = name task,
      w_icon = icon task,
      is_done = isDone task,
      is_urgent = isUrgent task,
      w_comment = comment task,
      created_at = createdAt task,
      updated_at = updatedAt task\<rparr>"

text \<open>The query of lines 173-239. It reads the table and, for the timestamp of the
  response, the clock; what lines 205 and 206 throw is not caught.\<close>

definition pullChanges :: "clock \<Rightarrow> world \<Rightarrow> pull_input \<Rightarrow> (error + pull_output) \<times> world" where
  "pullChanges clk w inp =
     (let safe = safeLastPulledAt inp;
          createdTasks = findMany_created (table w) safe;
          updatedTasks = findMany_updated (table w) safe
      in case migration_override inp of
           Inl e \<Rightarrow> (Inl e, w)
         | Inr full \<Rightarrow>
             (let updatedTasks' = (if full then findMany (table w) else updatedTasks);
                  (ts, w1) = Date_now clk w
              in (Inr \<lparr>out_changes = \<lparr>tasks =
                         \<lparr>created = Some (map to_wire createdTasks),
                          updated = Some (map to_wire updatedTasks'),
                          deleted = Some []\<rparr>\<rparr>,
                       timestamp = ts\<rparr>, w1)))"

text \<open>The two lists of a response.\<close>

definition created_of :: "pull_output \<Rightarrow> wire_task list" where
  "created_of out = (case created (tasks (out_changes out)) of Some ts \<Rightarrow> ts | None \<Rightarrow> [])"

definition updated_of :: "pull_output \<Rightarrow> wire_task list" where
  "updated_of out = (case updated (tasks (out_changes out)) of Some ts \<Rightarrow> ts | None \<Rightarrow> [])"

section \<open>Notions used to state and prove the properties\<close>

text \<open>The inbound creates of a push, those among them whose id is not yet stored, and
  the inbound records that become update patches: the creates whose id is stored, then the
  inbound updates.\<close>

definition inbound_creates :: "push_input \<Rightarrow> wire_task list" where
  "inbound_creates inp = (case created (tasks (changes inp)) of Some cs \<Rightarrow> cs | None \<Rightarrow> [])"

definition genuine_creates :: "stored_task list \<Rightarrow> push_input \<Rightarrow> wire_task list" where
  "genuine_creates db inp = filter (\<lambda>t. w_id t \<notin> set (map task_id db)) (inbound_creates inp)"

definition update_records :: "stored_task list \<Rightarrow> push_input \<Rightarrow> wire_task list" where
  "update_records db inp =
     filter (\<lambda>t. w_id t \<in> set (map task_id db)) (inbound_creates inp) @
     (case updated (tasks (changes inp)) of Some us \<Rightarrow> us | None \<Rightarrow> [])"

text \<open>A row after the patches of one transaction, and the table a successful push
  commits.\<close>

definition row_after :: "int \<Rightarrow> patch list \<Rightarrow> stored_task \<Rightarrow> stored_task" where
  "row_after now ps r = fold (\<lambda>p r. if task_id r = p_id p then apply_data p now r else r) ps r"

definition table_after :: "int \<Rightarrow> stored_task list \<Rightarrow> push_input \<Rightarrow> stored_task list" where
  "table_after now db inp =
     map (row_after now (map patch_of_updated (update_records db inp)))
       (db @ map (\<lambda>t. row_of_created t now) (genuine_creates db inp))"

text \<open>A sequence of pushes, each on the world the one before left, whether it committed
  or rolled back.\<close>

fun pushes :: "clock \<Rightarrow> world \<Rightarrow> push_input list \<Rightarrow> world" where
  "pushes clk w [] = w"
| "pushes clk w (inp # inps) = pushes clk (snd (pushChanges clk w inp)) inps"

section \<open>Example data\<close>

text \<open>A clock in the present, a table with one task, a client's edit of that task that
  leaves the optional fields out, and a task the table has not seen.\<close>

definition example_clock :: clock where
  "example_clock n = 1700000000000 + int n"

definition stored_a :: stored_task where
  "stored_a = \<lparr>task_id = ''a'', name = ''Buy milk'', icon = ''cart'', isDone = False,
     isUrgent = Some True, comment = Some ''2 litres'', createdAt = 10, updatedAt = 20,
     serverCreatedAt = 1600000000000, serverUpdatedAt = 1600000000500\<rparr>"

definition wire_a :: wire_task where
  "wire_a = \<lparr>w_id = ''a'', w_name = ''Buy oat milk'', w_icon = ''leaf'', is_done = True,
     is_urgent = None, w_comment = None, created_at = 10, updated_at = 30\<rparr>"

definition wire_b :: wire_task where
  "wire_b = \<lparr>w_id = ''b'', w_name = ''Call mum'', w_icon = ''phone'', is_done = False,
     is_urgent = Some False, w_comment = Some ''sunday'', created_at = 40, updated_at = 40\<rparr>"

definition world_a :: world where
  "world_a = \<lparr>table = [stored_a], reads = 0\<rparr>"

definition push_of :: "wire_task list option \<Rightarrow> wire_task list option \<Rightarrow> push_input" where
  "push_of cs us = \<lparr>changes = \<lparr>tasks = \<lparr>created = cs, updated = us, deleted = None\<rparr>\<rparr>,
     push_lastPulledAt = None\<rparr>"

definition pull_of :: "number option \<Rightarrow> number \<Rightarrow> string option \<Rightarrow> pull_input" where
  "pull_of wm sv mig = \<lparr>lastPulledAt = wm, schemaVersion = sv, migration = mig\<rparr>"

text \<open>The migration descriptor whose only member is \<^verbatim>\<open>from\<close>, with the value 1;
  \<open>dq\<close> is the double quote.\<close>

definition dq :: char where
  "dq = CHR 0x22"

definition from_1 :: string where
  "from_1 = ''{'' @ [dq] @ ''from'' @ [dq] @ '':1}''"

definition empty_world :: world where
  "empty_world = \<lparr>table = [], reads = 0\<rparr>"

text \<open>A response with the given created and updated lists.\<close>

definition response :: "wire_task list \<Rightarrow> wire_task list \<Rightarrow> int \<Rightarrow> pull_output" where
  "response cs us ts =
     \<lparr>out_changes = \<lparr>tasks = \<lparr>created = Some cs, updated = Some us, deleted = Some []\<rparr>\<rparr>,
      timestamp = ts\<rparr>"

section \<open>Facts about the store and the push transaction\<close>

text \<open>
  The staging loop splits the inbound creates by whether their id is stored; the insert
  then fails exactly when the new ids repeat, the updates fail exactly when a patch names
  an id that is neither stored nor just inserted, and otherwise the push commits
  \<open>table_after\<close>. The ids of a table, and their distinctness, survive every push.
\<close>

lemma findUnique_None: "findUnique db i = None \<longleftrightarrow> i \<notin> set (map task_id db)"
  by (auto simp: findUnique_def find_None_iff)

lemma findUnique_Some: "findUnique db i = Some r \<Longrightarrow> r \<in> set db \<and> task_id r = i"
  by (auto simp: findUnique_def find_Some_iff)

lemma stage_eq:
  "stage now db ts (cs, us) =
     (cs @ map (\<lambda>t. row_of_created t now) (filter (\<lambda>t. w_id t \<notin> set (map task_id db)) ts),
      us @ map patch_of_created (filter (\<lambda>t. w_id t \<in> set (map task_id db)) ts))"
proof (induction ts arbitrary: cs us)
  case Nil
  show ?case by simp
next
  case (Cons t ts)
  show ?case
  proof (cases "findUnique db (w_id t)")
    case None
    then have "w_id t \<notin> set (map task_id db)" by (simp add: findUnique_None)
    with None Cons show ?thesis by simp
  next
    case (Some r)
    then have "w_id t \<in> set (map task_id db)" using findUnique_None [of db "w_id t"] by simp
    with Some Cons show ?thesis by simp
  qed
qed

lemma task_id_apply_data: "task_id (apply_data p now r) = p_id p"
  by (simp add: apply_data_def)

lemma task_update_Inr:
  "task_update now db p = Inr db' \<longleftrightarrow>
     p_id p \<in> set (map task_id db) \<and>
     db' = map (\<lambda>r. if task_id r = p_id p then apply_data p now r else r) db"
  using findUnique_None [of db "p_id p"]
  by (auto simp: task_update_def split: option.splits)

lemma task_update_Inl:
  "task_update now db p = Inl e \<longleftrightarrow> p_id p \<notin> set (map task_id db) \<and> e = RecordNotFound"
  using findUnique_None [of db "p_id p"]
  by (auto simp: task_update_def split: option.splits)

lemma task_id_row_after: "task_id (row_after now ps r) = task_id r"
  unfolding row_after_def
  by (induction ps arbitrary: r) (auto simp: task_id_apply_data)

lemma updateQueries_Inl: "updateQueries now db ps = Inl e \<Longrightarrow> e = RecordNotFound"
  by (induction ps arbitrary: db) (auto simp: task_update_Inl split: sum.splits)

lemma updateQueries_Inr:
  "updateQueries now db ps = Inr db' \<longleftrightarrow>
     p_id ` set ps \<subseteq> set (map task_id db) \<and> db' = map (row_after now ps) db"
proof (induction ps arbitrary: db)
  case Nil
  show ?case by (auto simp: row_after_def)
next
  case (Cons p ps)
  let ?u = "\<lambda>r. if task_id r = p_id p then apply_data p now r else r"
  have ids: "map task_id (map ?u db) = map task_id db"
    by (induction db) (auto simp: task_id_apply_data)
  show ?case
  proof (cases "task_update now db p")
    case (Inl e)
    then have "p_id p \<notin> set (map task_id db)" by (simp add: task_update_Inl)
    with Inl show ?thesis by auto
  next
    case (Inr db1)
    then have 1: "p_id p \<in> set (map task_id db)" and 2: "db1 = map ?u db"
      by (simp_all add: task_update_Inr)
    have "map task_id db1 = map task_id db" using 2 ids by simp
    then show ?thesis using Inr Cons [of db1] 1 2
      by (auto simp: row_after_def comp_def)
  qed
qed

lemma patch_of_created_eq: "patch_of_created t = patch_of_updated t"
  by (simp add: patch_of_created_def patch_of_updated_def)

lemma staged_eq:
  "staged now db inp =
     (map (\<lambda>t. row_of_created t now) (genuine_creates db inp),
      map patch_of_created (filter (\<lambda>t. w_id t \<in> set (map task_id db)) (inbound_creates inp)))"
  by (cases "created (tasks (changes inp))")
     (simp_all add: staged_def inbound_creates_def genuine_creates_def stage_eq)

lemma update_patches_eq:
  "snd (staged now db inp) @ inbound_updates inp = map patch_of_updated (update_records db inp)"
  by (cases "updated (tasks (changes inp))")
     (simp_all add: staged_eq inbound_updates_def update_records_def patch_of_created_eq)

lemma task_id_row_of_created: "task_id (row_of_created t now) = w_id t"
  by (simp add: row_of_created_def)

lemma p_id_patch_of_updated: "p_id (patch_of_updated t) = w_id t"
  by (simp add: patch_of_updated_def)

lemma createMany_staged:
  "createMany db (map (\<lambda>t. row_of_created t now) (genuine_creates db inp)) =
     (if distinct (map w_id (genuine_creates db inp))
      then Inr (db @ map (\<lambda>t. row_of_created t now) (genuine_creates db inp))
      else Inl UniqueConstraintViolation)"
proof -
  have 1: "map task_id (map (\<lambda>t. row_of_created t now) (genuine_creates db inp)) =
        map w_id (genuine_creates db inp)"
    by (simp add: comp_def task_id_row_of_created)
  have 2: "\<not> (\<exists>r \<in> set (map (\<lambda>t. row_of_created t now) (genuine_creates db inp)).
           task_id r \<in> set (map task_id db))"
    by (auto simp: genuine_creates_def task_id_row_of_created)
  show ?thesis unfolding createMany_def using 2 by (simp only: 1 if_cancel) auto
qed

lemma pushChanges_eq:
  "pushChanges clk w inp =
     (if \<not> distinct (map w_id (genuine_creates (table w) inp))
      then (Inl (ExtendedTRPCError UniqueConstraintViolation), w\<lparr>reads := Suc (reads w)\<rparr>)
      else if \<not> w_id ` set (update_records (table w) inp) \<subseteq>
                set (map task_id (table w)) \<union> w_id ` set (genuine_creates (table w) inp)
      then (Inl (ExtendedTRPCError RecordNotFound), w\<lparr>reads := Suc (reads w)\<rparr>)
      else (Inr (), \<lparr>table = table_after (clk (reads w)) (table w) inp, reads = Suc (reads w)\<rparr>))"
proof -
  let ?now = "clk (reads w)"
  let ?db = "table w"
  let ?rows = "map (\<lambda>t. row_of_created t ?now) (genuine_creates ?db inp)"
  let ?ps = "map patch_of_updated (update_records ?db inp)"
  have ids: "set (map task_id (?db @ ?rows)) =
      set (map task_id ?db) \<union> w_id ` set (genuine_creates ?db inp)"
    by (auto simp: task_id_row_of_created)
  have pids: "p_id ` set ?ps = w_id ` set (update_records ?db inp)"
    by (simp add: image_image p_id_patch_of_updated)
  have uq: "updateQueries ?now (?db @ ?rows) ?ps =
      (if w_id ` set (update_records ?db inp) \<subseteq>
            set (map task_id ?db) \<union> w_id ` set (genuine_creates ?db inp)
       then Inr (table_after ?now ?db inp) else Inl RecordNotFound)"
  proof (cases "updateQueries ?now (?db @ ?rows) ?ps")
    case (Inr db')
    then show ?thesis using updateQueries_Inr [of ?now "?db @ ?rows" ?ps db'] ids pids
      by (simp add: table_after_def)
  next
    case (Inl e)
    have "\<not> p_id ` set ?ps \<subseteq> set (map task_id (?db @ ?rows))"
      using Inl updateQueries_Inr [of ?now "?db @ ?rows" ?ps "map (row_after ?now ?ps) (?db @ ?rows)"]
      by auto
    moreover have "e = RecordNotFound" using Inl updateQueries_Inl by blast
    ultimately show ?thesis using Inl ids pids by simp
  qed
  show ?thesis
    unfolding pushChanges_def Date_now_def
    using uq update_patches_eq [of ?now ?db inp] createMany_staged [of ?db ?now inp]
    by (cases "staged ?now ?db inp") (auto simp: staged_eq Let_def)
qed

lemma serverCreatedAt_row_after: "serverCreatedAt (row_after now ps r) = serverCreatedAt r"
  unfolding row_after_def
  by (induction ps arbitrary: r) (auto simp: apply_data_def)

lemma row_after_untouched: "task_id r \<notin> p_id ` set ps \<Longrightarrow> row_after now ps r = r"
  unfolding row_after_def
  by (induction ps arbitrary: r) auto

lemma serverUpdatedAt_row_after:
  "task_id r \<in> p_id ` set ps \<Longrightarrow> serverUpdatedAt (row_after now ps r) = now"
proof (induction ps arbitrary: r)
  case Nil
  then show ?case by simp
next
  case (Cons p ps)
  let ?r1 = "if task_id r = p_id p then apply_data p now r else r"
  have id1: "task_id ?r1 = task_id r" by (simp add: task_id_apply_data)
  have step: "row_after now (p # ps) r = row_after now ps ?r1" by (simp add: row_after_def)
  show ?case
  proof (cases "task_id r \<in> p_id ` set ps")
    case True
    then show ?thesis using Cons.IH [of ?r1] id1 step by simp
  next
    case False
    with Cons.prems have eq: "task_id r = p_id p" by auto
    have "row_after now ps ?r1 = ?r1" using False id1 row_after_untouched [of ?r1 ps now] by simp
    then show ?thesis using step eq by (simp add: apply_data_def)
  qed
qed

lemma row_after_single:
  "filter (\<lambda>p. p_id p = task_id r) ps = [p] \<Longrightarrow> row_after now ps r = apply_data p now r"
proof (induction ps arbitrary: r)
  case Nil
  then show ?case by simp
next
  case (Cons q qs)
  show ?case
  proof (cases "p_id q = task_id r")
    case True
    with Cons.prems have q: "q = p" and none: "filter (\<lambda>p. p_id p = task_id r) qs = []" by auto
    from none have "task_id r \<notin> p_id ` set qs" by (auto simp: filter_empty_conv)
    then have "task_id (apply_data p now r) \<notin> p_id ` set qs"
      using True q by (simp add: task_id_apply_data)
    then have "row_after now qs (apply_data p now r) = apply_data p now r"
      by (rule row_after_untouched)
    then show ?thesis using True q by (simp add: row_after_def)
  next
    case False
    with Cons.prems have "filter (\<lambda>p. p_id p = task_id r) qs = [p]" by simp
    then have "row_after now qs r = apply_data p now r" by (rule Cons.IH)
    then show ?thesis using False by (simp add: row_after_def)
  qed
qed

lemma findUnique_map_row_after:
  "findUnique (map (row_after now ps) db) i = map_option (row_after now ps) (findUnique db i)"
  unfolding findUnique_def
  by (induction db) (auto simp: task_id_row_after)

lemma findUnique_append:
  "findUnique (xs @ ys) i = (case findUnique xs i of Some r \<Rightarrow> Some r | None \<Rightarrow> findUnique ys i)"
  unfolding findUnique_def by (induction xs) auto

lemma findUnique_member:
  "distinct (map task_id db) \<Longrightarrow> r \<in> set db \<Longrightarrow> findUnique db (task_id r) = Some r"
  unfolding findUnique_def by (induction db) (auto simp: rev_image_eqI)

lemma findUnique_rows:
  "t \<in> set ts \<Longrightarrow> \<exists>t' \<in> set ts. w_id t' = w_id t \<and>
     findUnique (map (\<lambda>t. row_of_created t now) ts) (w_id t) = Some (row_of_created t' now)"
  unfolding findUnique_def by (induction ts) (auto simp: task_id_row_of_created)

lemma map_task_id_table_after:
  "map task_id (table_after now db inp) = map task_id db @ map w_id (genuine_creates db inp)"
  by (simp add: table_after_def comp_def task_id_row_after task_id_row_of_created)

lemma pushChanges_Inr:
  "pushChanges clk w inp = (Inr (), w') \<Longrightarrow>
     distinct (map w_id (genuine_creates (table w) inp)) \<and>
     w' = \<lparr>table = table_after (clk (reads w)) (table w) inp, reads = Suc (reads w)\<rparr>"
  by (simp add: pushChanges_eq split: if_splits)

lemma pushChanges_table:
  "table (snd (pushChanges clk w inp)) = table w \<or>
   table (snd (pushChanges clk w inp)) = table_after (clk (reads w)) (table w) inp"
  by (simp add: pushChanges_eq)

lemma distinct_table_after:
  "distinct (map task_id db) \<Longrightarrow> distinct (map w_id (genuine_creates db inp)) \<Longrightarrow>
     distinct (map task_id (table_after now db inp))"
  by (auto simp: map_task_id_table_after genuine_creates_def image_iff)

lemma distinct_pushChanges:
  "distinct (map task_id (table w)) \<Longrightarrow>
     distinct (map task_id (table (snd (pushChanges clk w inp))))"
  by (simp add: pushChanges_eq distinct_table_after)

lemma findUnique_table_after:
  "findUnique (table_after now db inp) i =
     map_option (row_after now (map patch_of_updated (update_records db inp)))
       (findUnique (db @ map (\<lambda>t. row_of_created t now) (genuine_creates db inp)) i)"
  unfolding table_after_def by (rule findUnique_map_row_after)

lemma findUnique_table_after_stored:
  assumes "distinct (map task_id db)" and "r \<in> set db"
  shows "findUnique (table_after now db inp) (task_id r) =
           Some (row_after now (map patch_of_updated (update_records db inp)) r)"
  using assms
  by (simp add: findUnique_table_after findUnique_append findUnique_member)

lemma count_one:
  "distinct (map f xs) \<Longrightarrow> x \<in> set xs \<Longrightarrow> length (filter (\<lambda>y. f y = f x) xs) = 1"
proof (induction xs)
  case Nil
  then show ?case by simp
next
  case (Cons a xs)
  show ?case
  proof (cases "f a = f x")
    case True
    with Cons.prems have "\<forall>y \<in> set xs. f y \<noteq> f x" by (auto simp: image_iff)
    then have "filter (\<lambda>y. f y = f x) xs = []" by (simp add: filter_empty_conv)
    with True show ?thesis by simp
  next
    case False
    with Cons show ?thesis by auto
  qed
qed

lemma serverUpdatedAt_row_after_now:
  "serverUpdatedAt r = now \<Longrightarrow> serverUpdatedAt (row_after now ps r) = now"
  by (cases "task_id r \<in> p_id ` set ps")
     (simp_all add: serverUpdatedAt_row_after row_after_untouched)

lemma pushes_keep:
  "distinct (map task_id (table w)) \<Longrightarrow> r \<in> set (table w) \<Longrightarrow>
     \<exists>r'. findUnique (table (pushes clk w inps)) (task_id r) = Some r' \<and>
          serverCreatedAt r' = serverCreatedAt r"
proof (induction inps arbitrary: w r)
  case Nil
  then show ?case by (simp add: findUnique_member)
next
  case (Cons inp inps)
  let ?w1 = "snd (pushChanges clk w inp)"
  have d1: "distinct (map task_id (table ?w1))" using Cons.prems(1) by (rule distinct_pushChanges)
  have "\<exists>r1. r1 \<in> set (table ?w1) \<and> task_id r1 = task_id r \<and> serverCreatedAt r1 = serverCreatedAt r"
  proof (cases "table ?w1 = table w")
    case True
    then show ?thesis using Cons.prems(2) by auto
  next
    case False
    then have "table ?w1 = table_after (clk (reads w)) (table w) inp"
      using pushChanges_table [of clk w inp] by simp
    then show ?thesis using Cons.prems(2)
      by (auto simp: table_after_def task_id_row_after serverCreatedAt_row_after)
  qed
  then obtain r1 where r1: "r1 \<in> set (table ?w1)" and id: "task_id r1 = task_id r"
    and sc: "serverCreatedAt r1 = serverCreatedAt r" by blast
  from Cons.IH [OF d1 r1, of ] id sc show ?case by simp
qed

section \<open>Facts about the pull query\<close>

text \<open>The response of a pull in terms of the normalised watermark and of the outcome of
  the migration check.\<close>

lemma JSON_parse_Nil: "JSON_parse [] = None"
  by (simp add: JSON_parse_def)

lemma pullChanges_Inr:
  "migration_override inp = Inr full \<Longrightarrow>
   pullChanges clk w inp =
     (Inr \<lparr>out_changes = \<lparr>tasks =
        \<lparr>created = Some (map to_wire (filter (\<lambda>r. safeLastPulledAt inp < serverCreatedAt r) (table w))),
         updated = Some (map to_wire
           (if full then table w
            else filter (\<lambda>r. safeLastPulledAt inp < serverUpdatedAt r \<and>
                              serverCreatedAt r \<le> safeLastPulledAt inp) (table w))),
         deleted = Some []\<rparr>\<rparr>,
        timestamp = clk (reads w)\<rparr>, w\<lparr>reads := Suc (reads w)\<rparr>)"
  by (simp add: pullChanges_def Date_now_def findMany_created_def findMany_updated_def findMany_def
      Let_def)

lemma pullChanges_Inl:
  "migration_override inp = Inl e \<Longrightarrow> pullChanges clk w inp = (Inl e, w)"
  by (simp add: pullChanges_def)

lemma to_wire_in_filter:
  assumes "distinct (map task_id db)" and "r \<in> set db"
  shows "to_wire r \<in> set (map to_wire (filter P db)) \<longleftrightarrow> P r"
proof
  assume "to_wire r \<in> set (map to_wire (filter P db))"
  then obtain r' where r': "r' \<in> set db" and P: "P r'" and eq: "to_wire r' = to_wire r" by auto
  from eq have "w_id (to_wire r') = w_id (to_wire r)" by simp
  then have "task_id r' = task_id r" by (simp add: to_wire_def)
  moreover from assms(1) have "inj_on task_id (set db)" by (simp add: distinct_map)
  ultimately have "r' = r" using r' assms(2) by (auto dest: inj_onD)
  with P show "P r" by simp
next
  assume "P r"
  with assms(2) show "to_wire r \<in> set (map to_wire (filter P db))" by auto
qed

section \<open>The examples, evaluated\<close>

text \<open>What the two procedures return on the example data, by unfolding their
  definitions.\<close>

lemmas example_defs = example_clock_def stored_a_def wire_a_def wire_b_def world_a_def
  empty_world_def push_of_def pull_of_def response_def

lemmas push_defs = pushChanges_def Date_now_def staged_def inbound_updates_def findUnique_def
  createMany_def task_update_def apply_data_def patch_of_created_def patch_of_updated_def
  row_of_created_def

lemma push_retry_a:
  "pushChanges example_clock world_a (push_of (Some [wire_a]) None) =
     (Inr (), \<lparr>table = [
        \<lparr>task_id = ''a'', name = ''Buy oat milk'', icon = ''leaf'', isDone = True,
         isUrgent = Some True, comment = Some ''2 litres'', createdAt = 10, updatedAt = 30,
         serverCreatedAt = 1600000000000, serverUpdatedAt = 1700000000000\<rparr>], reads = 1\<rparr>)"
  by (simp add: example_defs push_defs)

lemma push_update_a:
  "pushChanges example_clock world_a (push_of None (Some [wire_a])) =
     (Inr (), \<lparr>table = [
        \<lparr>task_id = ''a'', name = ''Buy oat milk'', icon = ''leaf'', isDone = True,
         isUrgent = Some True, comment = Some ''2 litres'', createdAt = 10, updatedAt = 30,
         serverCreatedAt = 1600000000000, serverUpdatedAt = 1700000000000\<rparr>], reads = 1\<rparr>)"
  by (simp add: example_defs push_defs)

lemma push_a_b:
  "pushChanges example_clock world_a (push_of (Some [wire_a, wire_b]) None) =
     (Inr (), \<lparr>table = [
        \<lparr>task_id = ''a'', name = ''Buy oat milk'', icon = ''leaf'', isDone = True,
         isUrgent = Some True, comment = Some ''2 litres'', createdAt = 10, updatedAt = 30,
         serverCreatedAt = 1600000000000, serverUpdatedAt = 1700000000000\<rparr>,
        \<lparr>task_id = ''b'', name = ''Call mum'', icon = ''phone'', isDone = False,
         isUrgent = Some False, comment = Some ''sunday'', createdAt = 40, updatedAt = 40,
         serverCreatedAt = 1700000000000, serverUpdatedAt = 1700000000000\<rparr>], reads = 1\<rparr>)"
  by (simp add: example_defs push_defs)

lemma JSON_parse_from_1: "JSON_parse from_1 = Some (JObject [(from_key, JNumber (Decimal 1 0))])"
  by code_simp

lemma from_1_less_than_2:
  "less_than_2 (get_from (JObject [(from_key, JNumber (Decimal 1 0))])) = Inr True"
  by code_simp

lemma JSON_parse_brace: "JSON_parse ''{'' = None"
  by code_simp

lemma override_from_1: "migration_override (pull_of wm (Num 2) (Some from_1)) = Inr True"
proof -
  have "from_1 \<noteq> []" by (simp add: from_1_def)
  then show ?thesis
    by (simp add: migration_override_def pull_of_def JSON_parse_from_1 from_1_less_than_2)
qed

lemma override_plain: "migration_override (pull_of wm (Num 1) None) = Inr False"
  by (simp add: migration_override_def pull_of_def)

lemma no_migration_no_override: "migration inp = None \<Longrightarrow> migration_override inp = Inr False"
  by (cases "schemaVersion inp") (simp_all add: migration_override_def)

text \<open>A descriptor whose \<^verbatim>\<open>from\<close> is an object with a member \<^verbatim>\<open>toString\<close>: the
  comparison of line 206 throws.\<close>

lemma from_object_throws:
  "migration_override
     (pull_of wm (Num 2)
        (Some (''{'' @ [dq] @ ''from'' @ [dq] @ '':{'' @ [dq] @ ''toString'' @ [dq] @ '':1}}'')))
   = Inl TypeError"
proof -
  have "less_than_2 (get_from (JObject [(from_key, JObject [(toString_key, JNumber (Decimal 1 0))])]))
      = Inl TypeError"
    by (simp add: less_than_2_def get_from_def ToNumber_def)
  moreover have "JSON_parse (''{'' @ [dq] @ ''from'' @ [dq] @ '':{'' @ [dq] @ ''toString'' @ [dq] @ '':1}}'')
      = Some (JObject [(from_key, JObject [(toString_key, JNumber (Decimal 1 0))])])"
    by code_simp
  ultimately show ?thesis
    by (simp add: migration_override_def pull_of_def)
qed

lemma from_integer_less_than_2:
  "less_than_2 (Some (JNumber (Decimal n 0))) = Inr (n < 2)"
  by (simp add: less_than_2_def ToNumber_def)

lemma pull_plain_a:
  "pullChanges example_clock world_a (pull_of None (Num 1) None) =
     (Inr (response [to_wire stored_a] [] 1700000000000), world_a\<lparr>reads := 1\<rparr>)"
  using pullChanges_Inr [OF override_plain [of None], of example_clock world_a]
  by (simp add: example_defs safeLastPulledAt_def)

lemma pull_resync_a:
  "pullChanges example_clock world_a (pull_of None (Num 2) (Some from_1)) =
     (Inr (response [to_wire stored_a] [to_wire stored_a] 1700000000000), world_a\<lparr>reads := 1\<rparr>)"
  using pullChanges_Inr [OF override_from_1 [of None], of example_clock world_a]
  by (simp add: example_defs safeLastPulledAt_def)

lemma pull_resync_a_late:
  "pullChanges example_clock world_a (pull_of (Some (Num 1650000000000)) (Num 2) (Some from_1)) =
     (Inr (response [] [to_wire stored_a] 1700000000000), world_a\<lparr>reads := 1\<rparr>)"
  using pullChanges_Inr [OF override_from_1 [of "Some (Num 1650000000000)"], of example_clock world_a]
  by (simp add: example_defs safeLastPulledAt_def)

lemma pull_empty_text_a:
  "pullChanges example_clock world_a (pull_of None (Num 2) (Some [])) =
     (Inr (response [to_wire stored_a] [] 1700000000000), world_a\<lparr>reads := 1\<rparr>)"
proof -
  have "migration_override (pull_of None (Num 2) (Some [])) = Inr False"
    by (simp add: migration_override_def pull_of_def)
  from pullChanges_Inr [OF this, of example_clock world_a] show ?thesis
    by (simp add: example_defs safeLastPulledAt_def)
qed

section \<open>The push transaction: claims C2, C4, C6 and C7\<close>

text \<open>
  Claim C2. Pushing a created record whose id is already in the store leaves exactly one
  stored record for that id, and that record is the stored one with the update applied.
  The record is not among the rows handed to the insert and its patch is among the
  updates. The insert fails with a duplicate key only when the records with ids new to the
  store repeat an id among themselves. When the push commits, the table holds one row with
  the id: the row found, after the patches of the transaction for that id, with its
  \<^verbatim>\<open>serverCreatedAt\<close> kept and its \<^verbatim>\<open>serverUpdatedAt\<close> set to the transaction's
  reading of the clock; where the record is the only one for its id, that row is the row
  found with the record's patch written onto it. A push whose creates are all stored
  already, with no inbound updates, commits.
\<close>

theorem existing_create_becomes_update:
  assumes "distinct (map task_id (table w))"
    and "created (tasks (changes inp)) = Some cs"
    and "t \<in> set cs"
    and "findUnique (table w) (w_id t) = Some r"
  shows "w_id t \<notin> set (map task_id (fst (staged now (table w) inp))) \<and>
         patch_of_created t \<in> set (snd (staged now (table w) inp)) \<and>
         (fst (pushChanges clk w inp) = Inl (ExtendedTRPCError UniqueConstraintViolation) \<longleftrightarrow>
            \<not> distinct (map w_id (filter (\<lambda>c. findUnique (table w) (w_id c) = None) cs))) \<and>
         (pushChanges clk w inp = (Inr (), w') \<longrightarrow>
            length (filter (\<lambda>x. task_id x = w_id t) (table w')) = 1 \<and>
            findUnique (table w') (w_id t) =
              Some (row_after (clk (reads w))
                     (map patch_of_updated (update_records (table w) inp)) r) \<and>
            (\<exists>r'. findUnique (table w') (w_id t) = Some r' \<and>
                  serverCreatedAt r' = serverCreatedAt r \<and>
                  serverUpdatedAt r' = clk (reads w)) \<and>
            (filter (\<lambda>u. w_id u = w_id t) (update_records (table w) inp) = [t] \<longrightarrow>
               findUnique (table w') (w_id t) =
                 Some (apply_data (patch_of_created t) (clk (reads w)) r))) \<and>
         ((\<forall>c \<in> set cs. findUnique (table w) (w_id c) \<noteq> None) \<and>
            updated (tasks (changes inp)) = None \<longrightarrow>
            fst (pushChanges clk w inp) = Inr ())"
proof -
  let ?db = "table w" and ?now = "clk (reads w)"
  let ?ps = "map patch_of_updated (update_records ?db inp)"
  from findUnique_Some [OF assms(4)] have r: "r \<in> set ?db" and id: "task_id r = w_id t"
    by simp_all
  have ex: "w_id t \<in> set (map task_id ?db)"
    using assms(4) findUnique_None [of ?db "w_id t"] by simp
  have ic: "inbound_creates inp = cs" using assms(2) by (simp add: inbound_creates_def)
  have gc: "genuine_creates ?db inp = filter (\<lambda>c. findUnique ?db (w_id c) = None) cs"
    by (simp add: genuine_creates_def ic findUnique_None)
  have ur: "t \<in> set (update_records ?db inp)"
    using ex assms(3) by (simp add: update_records_def ic)
  have pids: "p_id ` set ?ps = w_id ` set (update_records ?db inp)"
    by (simp add: image_image p_id_patch_of_updated)
  have 1: "w_id t \<notin> set (map task_id (fst (staged now ?db inp)))"
    using ex by (auto simp: staged_eq genuine_creates_def task_id_row_of_created)
  have 2: "patch_of_created t \<in> set (snd (staged now ?db inp))"
    using ex assms(3) by (simp add: staged_eq ic)
  have 3: "fst (pushChanges clk w inp) = Inl (ExtendedTRPCError UniqueConstraintViolation) \<longleftrightarrow>
            \<not> distinct (map w_id (filter (\<lambda>c. findUnique ?db (w_id c) = None) cs))"
    by (simp add: pushChanges_eq gc)
  have 4: "length (filter (\<lambda>x. task_id x = w_id t) (table w')) = 1 \<and>
            findUnique (table w') (w_id t) = Some (row_after ?now ?ps r) \<and>
            (\<exists>r'. findUnique (table w') (w_id t) = Some r' \<and>
                  serverCreatedAt r' = serverCreatedAt r \<and> serverUpdatedAt r' = ?now) \<and>
            (filter (\<lambda>u. w_id u = w_id t) (update_records ?db inp) = [t] \<longrightarrow>
               findUnique (table w') (w_id t) = Some (apply_data (patch_of_created t) ?now r))"
    if ok: "pushChanges clk w inp = (Inr (), w')"
  proof -
    from pushChanges_Inr [OF ok]
    have d: "distinct (map w_id (genuine_creates ?db inp))"
      and w': "table w' = table_after ?now ?db inp" by simp_all
    have dist: "distinct (map task_id (table w'))"
      using assms(1) d w' by (simp add: distinct_table_after)
    have "w_id t \<in> set (map task_id (table w'))"
      using ex w' by (simp add: map_task_id_table_after)
    then obtain x where x: "x \<in> set (table w')" and idx: "task_id x = w_id t" by auto
    from count_one [OF dist x] idx
    have one: "length (filter (\<lambda>x. task_id x = w_id t) (table w')) = 1" by simp
    have f: "findUnique (table w') (w_id t) = Some (row_after ?now ?ps r)"
      using findUnique_table_after_stored [OF assms(1) r, of ?now inp] id w' by simp
    have sc: "serverCreatedAt (row_after ?now ?ps r) = serverCreatedAt r"
      by (rule serverCreatedAt_row_after)
    have "task_id r \<in> p_id ` set ?ps" using ur id pids by auto
    then have su: "serverUpdatedAt (row_after ?now ?ps r) = ?now"
      by (rule serverUpdatedAt_row_after)
    have single: "findUnique (table w') (w_id t) = Some (apply_data (patch_of_created t) ?now r)"
      if only: "filter (\<lambda>u. w_id u = w_id t) (update_records ?db inp) = [t]"
    proof -
      have "filter (\<lambda>p. p_id p = task_id r) ?ps = [patch_of_updated t]"
        using only id by (simp add: filter_map comp_def p_id_patch_of_updated)
      then have "row_after ?now ?ps r = apply_data (patch_of_updated t) ?now r"
        by (rule row_after_single)
      with f show ?thesis by (simp add: patch_of_created_eq)
    qed
    from one f sc su single show ?thesis by simp
  qed
  have 5: "fst (pushChanges clk w inp) = Inr ()"
    if all: "\<forall>c \<in> set cs. findUnique ?db (w_id c) \<noteq> None"
      and nu: "updated (tasks (changes inp)) = None"
  proof -
    from all have g: "genuine_creates ?db inp = []"
      by (simp add: gc filter_empty_conv)
    from all have "\<forall>c \<in> set cs. w_id c \<in> set (map task_id ?db)"
      using findUnique_None by blast
    then have "w_id ` set (update_records ?db inp) \<subseteq> set (map task_id ?db)"
      using nu by (auto simp: update_records_def ic)
    then show ?thesis by (simp add: pushChanges_eq g)
  qed
  from 1 2 3 4 5 show ?thesis by blast
qed

text \<open>The stored task, pushed again as a create that leaves urgency flag and comment
  out: the push commits, and the one row with the id is the stored row with the new name,
  icon, done flag and client timestamp, its optional fields and its
  \<^verbatim>\<open>serverCreatedAt\<close> kept, and \<^verbatim>\<open>serverUpdatedAt\<close> the clock's reading.\<close>

theorem existing_create_becomes_update_witness:
  "distinct (map task_id (table world_a)) \<and>
   created (tasks (changes (push_of (Some [wire_a]) None))) = Some [wire_a] \<and>
   wire_a \<in> set [wire_a] \<and>
   findUnique (table world_a) (w_id wire_a) = Some stored_a \<and>
   updated (tasks (changes (push_of (Some [wire_a]) None))) = None \<and>
   filter (\<lambda>u. w_id u = w_id wire_a)
     (update_records (table world_a) (push_of (Some [wire_a]) None)) = [wire_a] \<and>
   fst (pushChanges example_clock world_a (push_of (Some [wire_a]) None)) = Inr () \<and>
   patch_of_created wire_a \<in> set (snd (staged 0 (table world_a) (push_of (Some [wire_a]) None))) \<and>
   length (filter (\<lambda>x. task_id x = w_id wire_a)
     (table (snd (pushChanges example_clock world_a (push_of (Some [wire_a]) None))))) = 1 \<and>
   findUnique (table (snd (pushChanges example_clock world_a (push_of (Some [wire_a]) None))))
     ''a'' =
     Some \<lparr>task_id = ''a'', name = ''Buy oat milk'', icon = ''leaf'', isDone = True,
           isUrgent = Some True, comment = Some ''2 litres'', createdAt = 10, updatedAt = 30,
           serverCreatedAt = 1600000000000, serverUpdatedAt = 1700000000000\<rparr>"
proof -
  let ?inp = "push_of (Some [wire_a]) None"
  let ?w' = "snd (pushChanges example_clock world_a ?inp)"
  have h1: "distinct (map task_id (table world_a))" by (simp add: example_defs)
  have h2: "created (tasks (changes ?inp)) = Some [wire_a]" by (simp add: push_of_def)
  have h3: "wire_a \<in> set [wire_a]" by simp
  have h4: "findUnique (table world_a) (w_id wire_a) = Some stored_a"
    by (simp add: example_defs findUnique_def)
  have h5: "\<forall>c \<in> set [wire_a]. findUnique (table world_a) (w_id c) \<noteq> None"
    using h4 by simp
  have h6: "updated (tasks (changes ?inp)) = None" by (simp add: push_of_def)
  have h7: "filter (\<lambda>u. w_id u = w_id wire_a) (update_records (table world_a) ?inp) = [wire_a]"
    by (simp add: example_defs update_records_def inbound_creates_def)
  have ok: "pushChanges example_clock world_a ?inp = (Inr (), ?w')"
    by (simp add: push_retry_a)
  from existing_create_becomes_update [OF h1 h2 h3 h4, of 0 example_clock ?w'] ok h5 h6 h7
  have a: "patch_of_created wire_a \<in> set (snd (staged 0 (table world_a) ?inp))"
    and b: "length (filter (\<lambda>x. task_id x = w_id wire_a) (table ?w')) = 1"
    and c: "fst (pushChanges example_clock world_a ?inp) = Inr ()"
    and d: "findUnique (table ?w') (w_id wire_a) =
      Some (apply_data (patch_of_created wire_a) (example_clock (reads world_a)) stored_a)"
    by blast+
  from d have "findUnique (table ?w') ''a'' =
     Some \<lparr>task_id = ''a'', name = ''Buy oat milk'', icon = ''leaf'', isDone = True,
           isUrgent = Some True, comment = Some ''2 litres'', createdAt = 10, updatedAt = 30,
           serverCreatedAt = 1600000000000, serverUpdatedAt = 1700000000000\<rparr>"
    by (simp add: apply_data_def patch_of_created_def wire_a_def stored_a_def world_a_def
        example_clock_def)
  with h1 h2 h3 h4 h6 h7 a b c show ?thesis by blast
qed

text \<open>
  Claim C4. For an inbound update record, whether it came as an update or as a create
  whose id is stored, the patch overwrites name, icon and done flag, and overwrites the
  urgency flag and the comment only when the record carries them; a field the record
  leaves out keeps its stored value. First for the stored row after a push in which the
  record is the only one for its id, then for the patch itself on any row.
\<close>

theorem merge_patch_is_sparse:
  assumes "pushChanges clk w inp = (Inr (), w')"
    and "distinct (map task_id (table w))"
    and "findUnique (table w) (w_id t) = Some r"
    and "filter (\<lambda>u. w_id u = w_id t) (update_records (table w) inp) = [t]"
  shows "(\<exists>r'. findUnique (table w') (w_id t) = Some r' \<and>
           name r' = w_name t \<and> icon r' = w_icon t \<and> isDone r' = is_done t \<and>
           isUrgent r' = (case is_urgent t of Some u \<Rightarrow> Some u | None \<Rightarrow> isUrgent r) \<and>
           comment r' = (case w_comment t of Some c \<Rightarrow> Some c | None \<Rightarrow> comment r)) \<and>
         (\<forall>p \<in> {patch_of_created t, patch_of_updated t}. \<forall>r0 now.
           name (apply_data p now r0) = w_name t \<and>
           icon (apply_data p now r0) = w_icon t \<and>
           isDone (apply_data p now r0) = is_done t \<and>
           isUrgent (apply_data p now r0) =
             (case is_urgent t of Some u \<Rightarrow> Some u | None \<Rightarrow> isUrgent r0) \<and>
           comment (apply_data p now r0) =
             (case w_comment t of Some c \<Rightarrow> Some c | None \<Rightarrow> comment r0))"
proof -
  let ?db = "table w" and ?now = "clk (reads w)"
  let ?ps = "map patch_of_updated (update_records ?db inp)"
  have patch: "name (apply_data (patch_of_updated t) now r0) = w_name t \<and>
           icon (apply_data (patch_of_updated t) now r0) = w_icon t \<and>
           isDone (apply_data (patch_of_updated t) now r0) = is_done t \<and>
           isUrgent (apply_data (patch_of_updated t) now r0) =
             (case is_urgent t of Some u \<Rightarrow> Some u | None \<Rightarrow> isUrgent r0) \<and>
           comment (apply_data (patch_of_updated t) now r0) =
             (case w_comment t of Some c \<Rightarrow> Some c | None \<Rightarrow> comment r0)" for now r0
    by (cases "is_urgent t"; cases "w_comment t")
       (simp_all add: apply_data_def patch_of_updated_def)
  from findUnique_Some [OF assms(3)] have r: "r \<in> set ?db" and id: "task_id r = w_id t"
    by simp_all
  from pushChanges_Inr [OF assms(1)] have "table w' = table_after ?now ?db inp" by simp
  then have f: "findUnique (table w') (w_id t) = Some (row_after ?now ?ps r)"
    using findUnique_table_after_stored [OF assms(2) r, of ?now inp] id by simp
  have "filter (\<lambda>p. p_id p = task_id r) ?ps = [patch_of_updated t]"
    using assms(4) id by (simp add: filter_map comp_def p_id_patch_of_updated)
  then have "row_after ?now ?ps r = apply_data (patch_of_updated t) ?now r"
    by (rule row_after_single)
  with f patch [of ?now r] have "\<exists>r'. findUnique (table w') (w_id t) = Some r' \<and>
           name r' = w_name t \<and> icon r' = w_icon t \<and> isDone r' = is_done t \<and>
           isUrgent r' = (case is_urgent t of Some u \<Rightarrow> Some u | None \<Rightarrow> isUrgent r) \<and>
           comment r' = (case w_comment t of Some c \<Rightarrow> Some c | None \<Rightarrow> comment r)"
    by simp
  with patch show ?thesis by (simp add: patch_of_created_eq)
qed

text \<open>An update of the stored task that leaves urgency flag and comment out: both keep
  their stored values, the three required fields are the new ones.\<close>

theorem merge_patch_is_sparse_witness:
  "pushChanges example_clock world_a (push_of None (Some [wire_a])) =
     (Inr (), snd (pushChanges example_clock world_a (push_of None (Some [wire_a])))) \<and>
   distinct (map task_id (table world_a)) \<and>
   findUnique (table world_a) (w_id wire_a) = Some stored_a \<and>
   filter (\<lambda>u. w_id u = w_id wire_a)
     (update_records (table world_a) (push_of None (Some [wire_a]))) = [wire_a] \<and>
   (\<exists>r'. findUnique (table (snd (pushChanges example_clock world_a (push_of None (Some [wire_a])))))
           ''a'' = Some r' \<and>
         name r' = ''Buy oat milk'' \<and> icon r' = ''leaf'' \<and> isDone r' = True \<and>
         isUrgent r' = Some True \<and> comment r' = Some ''2 litres'')"
proof -
  let ?inp = "push_of None (Some [wire_a])"
  let ?w' = "snd (pushChanges example_clock world_a ?inp)"
  have h1: "pushChanges example_clock world_a ?inp = (Inr (), ?w')"
    by (simp add: push_update_a)
  have h2: "distinct (map task_id (table world_a))" by (simp add: example_defs)
  have h3: "findUnique (table world_a) (w_id wire_a) = Some stored_a"
    by (simp add: example_defs findUnique_def)
  have h4: "filter (\<lambda>u. w_id u = w_id wire_a) (update_records (table world_a) ?inp) = [wire_a]"
    by (simp add: example_defs update_records_def inbound_creates_def)
  from merge_patch_is_sparse [OF h1 h2 h3 h4]
  have "\<exists>r'. findUnique (table ?w') (w_id wire_a) = Some r' \<and>
           name r' = w_name wire_a \<and> icon r' = w_icon wire_a \<and> isDone r' = is_done wire_a \<and>
           isUrgent r' = (case is_urgent wire_a of Some u \<Rightarrow> Some u | None \<Rightarrow> isUrgent stored_a) \<and>
           comment r' = (case w_comment wire_a of Some c \<Rightarrow> Some c | None \<Rightarrow> comment stored_a)"
    by blast
  then have "\<exists>r'. findUnique (table ?w') ''a'' = Some r' \<and>
         name r' = ''Buy oat milk'' \<and> icon r' = ''leaf'' \<and> isDone r' = True \<and>
         isUrgent r' = Some True \<and> comment r' = Some ''2 litres''"
    by (simp add: wire_a_def stored_a_def)
  with h1 h2 h3 h4 show ?thesis by blast
qed

text \<open>
  Claim C6. Every genuine create of a push that commits is stored with
  \<^verbatim>\<open>serverCreatedAt\<close> and \<^verbatim>\<open>serverUpdatedAt\<close> both equal to the one reading of the
  clock the transaction took: the push advances the count of clock reads by exactly one,
  whatever the size of the batch.
\<close>

theorem genuine_creates_stamped_now:
  assumes "pushChanges clk w inp = (Inr (), w')"
    and "created (tasks (changes inp)) = Some cs"
    and "t \<in> set cs"
    and "findUnique (table w) (w_id t) = None"
  shows "reads w' = Suc (reads w) \<and>
         (\<exists>r. findUnique (table w') (w_id t) = Some r \<and>
              serverCreatedAt r = clk (reads w) \<and> serverUpdatedAt r = clk (reads w))"
proof -
  let ?db = "table w" and ?now = "clk (reads w)"
  let ?ps = "map patch_of_updated (update_records ?db inp)"
  from pushChanges_Inr [OF assms(1)]
  have w': "w' = \<lparr>table = table_after ?now ?db inp, reads = Suc (reads w)\<rparr>" by simp
  have "t \<in> set (genuine_creates ?db inp)"
    using assms(2,3,4) by (simp add: genuine_creates_def inbound_creates_def findUnique_None)
  from findUnique_rows [OF this, of ?now]
  obtain t' where f: "findUnique (map (\<lambda>t. row_of_created t ?now) (genuine_creates ?db inp)) (w_id t)
      = Some (row_of_created t' ?now)" by blast
  have "findUnique (table w') (w_id t) = Some (row_after ?now ?ps (row_of_created t' ?now))"
    using w' f assms(4)
    by (simp add: findUnique_table_after findUnique_append)
  moreover have "serverCreatedAt (row_after ?now ?ps (row_of_created t' ?now)) = ?now"
    by (simp add: serverCreatedAt_row_after row_of_created_def)
  moreover have "serverUpdatedAt (row_after ?now ?ps (row_of_created t' ?now)) = ?now"
    by (rule serverUpdatedAt_row_after_now) (simp add: row_of_created_def)
  ultimately show ?thesis using w' by simp
qed

text \<open>A push of the stored task and a new one: the new one is stamped with the clock's
  reading, 1700000000000, in both fields.\<close>

theorem genuine_creates_stamped_now_witness:
  "pushChanges example_clock world_a (push_of (Some [wire_a, wire_b]) None) =
     (Inr (), snd (pushChanges example_clock world_a (push_of (Some [wire_a, wire_b]) None))) \<and>
   created (tasks (changes (push_of (Some [wire_a, wire_b]) None))) = Some [wire_a, wire_b] \<and>
   wire_b \<in> set [wire_a, wire_b] \<and>
   findUnique (table world_a) (w_id wire_b) = None \<and>
   reads (snd (pushChanges example_clock world_a (push_of (Some [wire_a, wire_b]) None))) = 1 \<and>
   (\<exists>r. findUnique (table (snd (pushChanges example_clock world_a
            (push_of (Some [wire_a, wire_b]) None)))) ''b'' = Some r \<and>
        serverCreatedAt r = 1700000000000 \<and> serverUpdatedAt r = 1700000000000)"
proof -
  let ?inp = "push_of (Some [wire_a, wire_b]) None"
  let ?w' = "snd (pushChanges example_clock world_a ?inp)"
  have h1: "pushChanges example_clock world_a ?inp = (Inr (), ?w')"
    by (simp add: push_a_b)
  have h2: "created (tasks (changes ?inp)) = Some [wire_a, wire_b]" by (simp add: push_of_def)
  have h3: "wire_b \<in> set [wire_a, wire_b]" by simp
  have h4: "findUnique (table world_a) (w_id wire_b) = None"
    by (simp add: example_defs findUnique_def)
  from genuine_creates_stamped_now [OF h1 h2 h3 h4]
  have "reads ?w' = 1 \<and>
         (\<exists>r. findUnique (table ?w') ''b'' = Some r \<and>
              serverCreatedAt r = 1700000000000 \<and> serverUpdatedAt r = 1700000000000)"
    by (simp add: example_defs)
  with h1 h2 h3 h4 show ?thesis by blast
qed

text \<open>
  Claim C7. A push that commits leaves \<^verbatim>\<open>serverCreatedAt\<close> of every row it found as
  it was, sets \<^verbatim>\<open>serverUpdatedAt\<close> of every row it patched to the transaction's reading
  of the clock and leaves the other rows alone; and after any sequence of pushes, committed
  or rolled back, a row still has the \<^verbatim>\<open>serverCreatedAt\<close> it had.
\<close>

theorem update_stamps_only_serverUpdatedAt:
  assumes "distinct (map task_id (table w))" and "r \<in> set (table w)"
  shows "(pushChanges clk w inp = (Inr (), w') \<longrightarrow>
           (\<exists>r'. findUnique (table w') (task_id r) = Some r' \<and>
                 serverCreatedAt r' = serverCreatedAt r \<and>
                 (if task_id r \<in> w_id ` set (update_records (table w) inp)
                  then serverUpdatedAt r' = clk (reads w) else r' = r))) \<and>
         (\<exists>r'. findUnique (table (pushes clk w inps)) (task_id r) = Some r' \<and>
               serverCreatedAt r' = serverCreatedAt r)"
proof -
  let ?db = "table w" and ?now = "clk (reads w)"
  let ?ps = "map patch_of_updated (update_records ?db inp)"
  have pids: "p_id ` set ?ps = w_id ` set (update_records ?db inp)"
    by (simp add: image_image p_id_patch_of_updated)
  have "\<exists>r'. findUnique (table w') (task_id r) = Some r' \<and>
                 serverCreatedAt r' = serverCreatedAt r \<and>
                 (if task_id r \<in> w_id ` set (update_records ?db inp)
                  then serverUpdatedAt r' = ?now else r' = r)"
    if ok: "pushChanges clk w inp = (Inr (), w')"
  proof -
    from pushChanges_Inr [OF ok] have "table w' = table_after ?now ?db inp" by simp
    then have "findUnique (table w') (task_id r) = Some (row_after ?now ?ps r)"
      using assms by (simp add: findUnique_table_after_stored)
    moreover have "serverCreatedAt (row_after ?now ?ps r) = serverCreatedAt r"
      by (rule serverCreatedAt_row_after)
    moreover have "serverUpdatedAt (row_after ?now ?ps r) = ?now"
      if "task_id r \<in> w_id ` set (update_records ?db inp)"
      using that pids serverUpdatedAt_row_after [of r ?ps ?now] by simp
    moreover have "row_after ?now ?ps r = r"
      if "task_id r \<notin> w_id ` set (update_records ?db inp)"
      using that pids row_after_untouched [of r ?ps ?now] by simp
    ultimately show ?thesis by simp
  qed
  with pushes_keep [OF assms] show ?thesis by blast
qed

text \<open>The stored task, updated once and then pushed again as a create: it keeps
  1600000000000 as \<^verbatim>\<open>serverCreatedAt\<close>, and the update stamps the clock's reading.\<close>

theorem update_stamps_only_serverUpdatedAt_witness:
  "distinct (map task_id (table world_a)) \<and>
   stored_a \<in> set (table world_a) \<and>
   pushChanges example_clock world_a (push_of None (Some [wire_a])) =
     (Inr (), snd (pushChanges example_clock world_a (push_of None (Some [wire_a])))) \<and>
   task_id stored_a \<in> w_id ` set (update_records (table world_a) (push_of None (Some [wire_a]))) \<and>
   (\<exists>r'. findUnique (table (snd (pushChanges example_clock world_a (push_of None (Some [wire_a])))))
           ''a'' = Some r' \<and>
         serverCreatedAt r' = 1600000000000 \<and> serverUpdatedAt r' = 1700000000000) \<and>
   (\<exists>r'. findUnique (table (pushes example_clock world_a
            [push_of None (Some [wire_a]), push_of (Some [wire_a]) None])) ''a'' = Some r' \<and>
         serverCreatedAt r' = 1600000000000)"
proof -
  let ?inp = "push_of None (Some [wire_a])"
  let ?inps = "[push_of None (Some [wire_a]), push_of (Some [wire_a]) None]"
  let ?w' = "snd (pushChanges example_clock world_a ?inp)"
  have h1: "distinct (map task_id (table world_a))" by (simp add: example_defs)
  have h2: "stored_a \<in> set (table world_a)" by (simp add: example_defs)
  have h3: "pushChanges example_clock world_a ?inp = (Inr (), ?w')"
    by (simp add: push_update_a)
  have h4: "task_id stored_a \<in> w_id ` set (update_records (table world_a) ?inp)"
    by (simp add: example_defs update_records_def inbound_creates_def)
  from update_stamps_only_serverUpdatedAt [OF h1 h2, of example_clock ?inp ?w' ?inps] h3 h4
  have "(\<exists>r'. findUnique (table ?w') (task_id stored_a) = Some r' \<and>
             serverCreatedAt r' = serverCreatedAt stored_a \<and>
             serverUpdatedAt r' = example_clock (reads world_a))"
    and "(\<exists>r'. findUnique (table (pushes example_clock world_a ?inps)) (task_id stored_a) = Some r' \<and>
             serverCreatedAt r' = serverCreatedAt stored_a)"
    by auto
  then have "(\<exists>r'. findUnique (table ?w') ''a'' = Some r' \<and>
         serverCreatedAt r' = 1600000000000 \<and> serverUpdatedAt r' = 1700000000000)"
    and "(\<exists>r'. findUnique (table (pushes example_clock world_a ?inps)) ''a'' = Some r' \<and>
         serverCreatedAt r' = 1600000000000)"
    by (simp_all add: stored_a_def world_a_def example_clock_def)
  with h1 h2 h3 h4 show ?thesis by blast
qed

section \<open>The pull query: claims C1, C3, C5, C8, C9 and C10\<close>

text \<open>
  Claim C1, as amended. For every watermark and every stored record, a pull without the
  migration override puts the record in at most one of the created and updated lists.
  With the override the updated list is the whole table, so the record is in the updated
  list, and it is in the created list as well exactly when its \<^verbatim>\<open>serverCreatedAt\<close> is
  past the watermark.
\<close>

theorem created_updated_disjoint_unless_override:
  assumes "distinct (map task_id (table w))"
    and "r \<in> set (table w)"
    and "pullChanges clk w inp = (Inr out, w')"
  shows "(migration_override inp = Inr False \<longrightarrow>
            \<not> (to_wire r \<in> set (created_of out) \<and> to_wire r \<in> set (updated_of out))) \<and>
         (migration_override inp = Inr True \<longrightarrow>
            to_wire r \<in> set (updated_of out) \<and>
            (to_wire r \<in> set (created_of out) \<longleftrightarrow> safeLastPulledAt inp < serverCreatedAt r))"
proof (intro conjI impI)
  assume m: "migration_override inp = Inr False"
  from pullChanges_Inr [OF m, of clk w] assms(3)
  have c: "created_of out = map to_wire (filter (\<lambda>r. safeLastPulledAt inp < serverCreatedAt r) (table w))"
    and u: "updated_of out = map to_wire (filter (\<lambda>r. safeLastPulledAt inp < serverUpdatedAt r \<and>
                              serverCreatedAt r \<le> safeLastPulledAt inp) (table w))"
    by (auto simp: created_of_def updated_of_def)
  show "\<not> (to_wire r \<in> set (created_of out) \<and> to_wire r \<in> set (updated_of out))"
    unfolding c u to_wire_in_filter [OF assms(1,2)] by simp
next
  assume m: "migration_override inp = Inr True"
  from pullChanges_Inr [OF m, of clk w] assms(3)
  have c: "created_of out = map to_wire (filter (\<lambda>r. safeLastPulledAt inp < serverCreatedAt r) (table w))"
    and u: "updated_of out = map to_wire (table w)"
    by (auto simp: created_of_def updated_of_def)
  show "to_wire r \<in> set (updated_of out)" using u assms(2) by simp
  show "to_wire r \<in> set (created_of out) \<longleftrightarrow> safeLastPulledAt inp < serverCreatedAt r"
    unfolding c by (rule to_wire_in_filter [OF assms(1,2)])
qed

text \<open>The stored task under a first pull without a migration, where it is created only,
  and under a first pull with the migration from version 1, where it is in both lists.\<close>

theorem created_updated_disjoint_unless_override_witness:
  "distinct (map task_id (table world_a)) \<and>
   stored_a \<in> set (table world_a) \<and>
   pullChanges example_clock world_a (pull_of None (Num 1) None) =
     (Inr (response [to_wire stored_a] [] 1700000000000), world_a\<lparr>reads := 1\<rparr>) \<and>
   migration_override (pull_of None (Num 1) None) = Inr False \<and>
   to_wire stored_a \<notin> set (updated_of (response [to_wire stored_a] [] 1700000000000)) \<and>
   pullChanges example_clock world_a (pull_of None (Num 2) (Some from_1)) =
     (Inr (response [to_wire stored_a] [to_wire stored_a] 1700000000000),
      world_a\<lparr>reads := 1\<rparr>) \<and>
   migration_override (pull_of None (Num 2) (Some from_1)) = Inr True \<and>
   safeLastPulledAt (pull_of None (Num 2) (Some from_1)) < serverCreatedAt stored_a \<and>
   to_wire stored_a \<in>
     set (created_of (response [to_wire stored_a] [to_wire stored_a] 1700000000000))"
proof -
  let ?plain = "pull_of None (Num 1) None"
  let ?resync = "pull_of None (Num 2) (Some from_1)"
  let ?out1 = "response [to_wire stored_a] [] 1700000000000"
  let ?out2 = "response [to_wire stored_a] [to_wire stored_a] 1700000000000"
  have h1: "distinct (map task_id (table world_a))" by (simp add: example_defs)
  have h2: "stored_a \<in> set (table world_a)" by (simp add: example_defs)
  note h3 = pull_plain_a
  note h4 = pull_resync_a
  have m1: "migration_override ?plain = Inr False" by (rule override_plain)
  have m2: "migration_override ?resync = Inr True" by (rule override_from_1)
  have c1: "to_wire stored_a \<in> set (created_of ?out1)"
    by (simp add: created_of_def response_def)
  have s2: "safeLastPulledAt ?resync < serverCreatedAt stored_a"
    by (simp add: safeLastPulledAt_def pull_of_def stored_a_def)
  from created_updated_disjoint_unless_override [OF h1 h2 h3] m1 c1
  have u1: "to_wire stored_a \<notin> set (updated_of ?out1)" by blast
  from created_updated_disjoint_unless_override [OF h1 h2 h4] m2 s2
  have c2: "to_wire stored_a \<in> set (created_of ?out2)" by blast
  from h1 h2 h3 h4 m1 m2 s2 u1 c2 show ?thesis by blast
qed

text \<open>Against the claim as it stands: under the migration override the stored task is
  in the created list and in the updated list of one response.\<close>

theorem disjoint_partition_counterexample:
  "stored_a \<in> set (table world_a) \<and>
   pullChanges example_clock world_a (pull_of None (Num 2) (Some from_1)) =
     (Inr (response [to_wire stored_a] [to_wire stored_a] 1700000000000),
      world_a\<lparr>reads := 1\<rparr>) \<and>
   to_wire stored_a \<in>
     set (created_of (response [to_wire stored_a] [to_wire stored_a] 1700000000000)) \<and>
   to_wire stored_a \<in>
     set (updated_of (response [to_wire stored_a] [to_wire stored_a] 1700000000000))"
  using pull_resync_a
  by (simp add: created_of_def updated_of_def response_def world_a_def)

text \<open>
  Claim C3. A pull with a schema version of at least 2 and a migration descriptor whose
  \<^verbatim>\<open>from\<close> is below 2 answers, whatever the watermark, with every row of the table in
  the updated list, and with the rows created after the watermark in the created list.
  Below 2 is meant as line 206 evaluates it; for an integer \<^verbatim>\<open>from\<close> that is the plain
  comparison (\<open>from_integer_less_than_2\<close>).
\<close>

theorem migration_full_resync:
  assumes "schemaVersion inp = Num v" and "2 \<le> v"
    and "migration inp = Some text"
    and "JSON_parse text = Some m"
    and "less_than_2 (get_from m) = Inr True"
  shows "\<exists>out. pullChanges clk w inp = (Inr out, w\<lparr>reads := Suc (reads w)\<rparr>) \<and>
           updated_of out = map to_wire (table w) \<and>
           created_of out =
             map to_wire (filter (\<lambda>r. safeLastPulledAt inp < serverCreatedAt r) (table w))"
proof -
  from assms(4) have "text \<noteq> []" using JSON_parse_Nil by auto
  with assms have "migration_override inp = Inr True"
    by (simp add: migration_override_def)
  from pullChanges_Inr [OF this, of clk w] show ?thesis
    by (simp add: created_of_def updated_of_def)
qed

text \<open>A pull with a watermark later than everything stored, schema version 2 and a
  migration from version 1: nothing is created, the stored task is updated.\<close>

theorem migration_full_resync_witness:
  "schemaVersion (pull_of (Some (Num 1650000000000)) (Num 2) (Some from_1)) = Num 2 \<and>
   (2::int) \<le> 2 \<and>
   migration (pull_of (Some (Num 1650000000000)) (Num 2) (Some from_1)) = Some from_1 \<and>
   JSON_parse from_1 = Some (JObject [(from_key, JNumber (Decimal 1 0))]) \<and>
   less_than_2 (get_from (JObject [(from_key, JNumber (Decimal 1 0))])) = Inr True \<and>
   (\<exists>out. pullChanges example_clock world_a
            (pull_of (Some (Num 1650000000000)) (Num 2) (Some from_1)) =
            (Inr out, world_a\<lparr>reads := 1\<rparr>) \<and>
          updated_of out = [to_wire stored_a] \<and> created_of out = [])"
proof -
  let ?inp = "pull_of (Some (Num 1650000000000)) (Num 2) (Some from_1)"
  have h1: "schemaVersion ?inp = Num 2" by (simp add: pull_of_def)
  have h2: "(2::int) \<le> 2" by simp
  have h3: "migration ?inp = Some from_1" by (simp add: pull_of_def)
  note h4 = JSON_parse_from_1
  note h5 = from_1_less_than_2
  from migration_full_resync [OF h1 h2 h3 h4 h5, of example_clock world_a]
  have "\<exists>out. pullChanges example_clock world_a ?inp = (Inr out, world_a\<lparr>reads := 1\<rparr>) \<and>
          updated_of out = [to_wire stored_a] \<and> created_of out = []"
    by (simp add: example_defs safeLastPulledAt_def)
  with h1 h2 h3 h4 h5 show ?thesis by blast
qed



text \<open>
  Claim C8. A pull that gets past the migration check of lines 204-209 answers from the
  two queries at the normalised watermark. The normalised watermark of \<^verbatim>\<open>null\<close> is
  1, and a pull with \<^verbatim>\<open>null\<close> then returns every row in the created list, the rows
  being stamped past 1 as rows stamped by a real clock are; the normalised watermark of a
  number other than zero is that number.
\<close>

theorem pull_normalises_watermark:
  assumes "migration_override inp = Inr full"
  shows "\<exists>out. pullChanges clk w inp = (Inr out, w\<lparr>reads := Suc (reads w)\<rparr>) \<and>
           created_of out =
             map to_wire (filter (\<lambda>r. safeLastPulledAt inp < serverCreatedAt r) (table w)) \<and>
           updated_of out =
             map to_wire
               (if full then table w
                else filter (\<lambda>r. safeLastPulledAt inp < serverUpdatedAt r \<and>
                                  serverCreatedAt r \<le> safeLastPulledAt inp) (table w)) \<and>
           (lastPulledAt inp = None \<longrightarrow>
              safeLastPulledAt inp = 1 \<and>
              ((\<forall>r \<in> set (table w). 1 < serverCreatedAt r) \<longrightarrow>
                 created_of out = map to_wire (table w))) \<and>
           (\<forall>n. lastPulledAt inp = Some (Num n) \<and> n \<noteq> 0 \<longrightarrow> safeLastPulledAt inp = n)"
proof -
  have 1: "lastPulledAt inp = None \<Longrightarrow> safeLastPulledAt inp = 1"
    by (simp add: safeLastPulledAt_def)
  have 2: "\<forall>n. lastPulledAt inp = Some (Num n) \<and> n \<noteq> 0 \<longrightarrow> safeLastPulledAt inp = n"
    by (simp add: safeLastPulledAt_def)
  have 3: "filter (\<lambda>r. safeLastPulledAt inp < serverCreatedAt r) (table w) = table w"
    if "lastPulledAt inp = None" and "\<forall>r \<in> set (table w). 1 < serverCreatedAt r"
    using that 1 by (simp add: filter_id_conv)
  from pullChanges_Inr [OF assms, of clk w] 1 2 3 show ?thesis
    by (simp add: created_of_def updated_of_def)
qed

text \<open>The stored task under a pull with \<^verbatim>\<open>null\<close>, which returns it as created, and
  under a pull with a watermark later than its creation and its last update, which returns
  nothing.\<close>

theorem pull_normalises_watermark_witness:
  "migration_override (pull_of None (Num 1) None) = Inr False \<and>
   lastPulledAt (pull_of None (Num 1) None) = None \<and>
   table world_a = [stored_a] \<and> 1 < serverCreatedAt stored_a \<and>
   safeLastPulledAt (pull_of None (Num 1) None) = 1 \<and>
   (\<exists>out. pullChanges example_clock world_a (pull_of None (Num 1) None) =
            (Inr out, world_a\<lparr>reads := 1\<rparr>) \<and>
          created_of out = [to_wire stored_a] \<and> updated_of out = []) \<and>
   migration_override (pull_of (Some (Num 1650000000000)) (Num 1) None) = Inr False \<and>
   lastPulledAt (pull_of (Some (Num 1650000000000)) (Num 1) None) = Some (Num 1650000000000) \<and>
   (1650000000000::int) \<noteq> 0 \<and>
   safeLastPulledAt (pull_of (Some (Num 1650000000000)) (Num 1) None) = 1650000000000 \<and>
   (\<exists>out. pullChanges example_clock world_a (pull_of (Some (Num 1650000000000)) (Num 1) None) =
            (Inr out, world_a\<lparr>reads := 1\<rparr>) \<and>
          created_of out = [] \<and> updated_of out = [])"
proof -
  let ?null = "pull_of None (Num 1) None"
  let ?late = "pull_of (Some (Num 1650000000000)) (Num 1) None"
  have m1: "migration_override ?null = Inr False" by (rule override_plain)
  have m2: "migration_override ?late = Inr False" by (rule override_plain)
  have l1: "lastPulledAt ?null = None" by (simp add: pull_of_def)
  have l2: "lastPulledAt ?late = Some (Num 1650000000000)" by (simp add: pull_of_def)
  have t: "table world_a = [stored_a]" by (simp add: world_a_def)
  have s: "1 < serverCreatedAt stored_a" by (simp add: stored_a_def)
  have all: "\<forall>r \<in> set (table world_a). 1 < serverCreatedAt r" using t s by simp
  have nz: "(1650000000000::int) \<noteq> 0" by simp
  from pull_normalises_watermark [OF m1, of example_clock world_a] l1 all
  have a: "safeLastPulledAt ?null = 1"
    and b: "\<exists>out. pullChanges example_clock world_a ?null = (Inr out, world_a\<lparr>reads := 1\<rparr>) \<and>
          created_of out = [to_wire stored_a] \<and> updated_of out = []"
    by (auto simp: example_defs)
  from pull_normalises_watermark [OF m2, of example_clock world_a] l2 nz
  have c: "safeLastPulledAt ?late = 1650000000000" by blast
  from pull_normalises_watermark [OF m2, of example_clock world_a] c
  have d: "\<exists>out. pullChanges example_clock world_a ?late = (Inr out, world_a\<lparr>reads := 1\<rparr>) \<and>
          created_of out = [] \<and> updated_of out = []"
    by (auto simp: example_defs)
  from m1 m2 l1 l2 t s nz a b c d show ?thesis by blast
qed

text \<open>
  Claim C9. The watermark is normalised by truthiness: a \<^verbatim>\<open>lastPulledAt\<close> of zero, or
  \<^verbatim>\<open>NaN\<close>, is replaced by 1 as \<^verbatim>\<open>null\<close> is, and the pull then answers exactly as the
  pull with \<^verbatim>\<open>null\<close> does.
\<close>

theorem falsy_watermark_is_full_sync:
  assumes "lastPulledAt inp = Some (Num 0) \<or> lastPulledAt inp = Some NaN"
  shows "safeLastPulledAt inp = 1 \<and>
         pullChanges clk w inp = pullChanges clk w (inp\<lparr>lastPulledAt := None\<rparr>)"
proof -
  have s: "safeLastPulledAt inp = 1" using assms by (auto simp: safeLastPulledAt_def)
  have s': "safeLastPulledAt (inp\<lparr>lastPulledAt := None\<rparr>) = 1" by (simp add: safeLastPulledAt_def)
  have m: "migration_override (inp\<lparr>lastPulledAt := None\<rparr>) = migration_override inp"
    by (simp add: migration_override_def)
  show ?thesis using s by (simp add: pullChanges_def s' m Let_def)
qed

text \<open>A pull with \<^verbatim>\<open>lastPulledAt\<close> zero, and one with \<^verbatim>\<open>NaN\<close>: the answer of the pull
  with \<^verbatim>\<open>null\<close>, the stored task as created.\<close>

theorem falsy_watermark_is_full_sync_witness:
  "lastPulledAt (pull_of (Some (Num 0)) (Num 1) None) = Some (Num 0) \<and>
   safeLastPulledAt (pull_of (Some (Num 0)) (Num 1) None) = 1 \<and>
   pullChanges example_clock world_a (pull_of (Some (Num 0)) (Num 1) None) =
     (Inr (response [to_wire stored_a] [] 1700000000000), world_a\<lparr>reads := 1\<rparr>) \<and>
   lastPulledAt (pull_of (Some NaN) (Num 1) None) = Some NaN \<and>
   safeLastPulledAt (pull_of (Some NaN) (Num 1) None) = 1 \<and>
   pullChanges example_clock world_a (pull_of (Some NaN) (Num 1) None) =
     (Inr (response [to_wire stored_a] [] 1700000000000), world_a\<lparr>reads := 1\<rparr>)"
proof -
  let ?zero = "pull_of (Some (Num 0)) (Num 1) None"
  let ?nan = "pull_of (Some NaN) (Num 1) None"
  have h1: "lastPulledAt ?zero = Some (Num 0)" by (simp add: pull_of_def)
  have h2: "lastPulledAt ?nan = Some NaN" by (simp add: pull_of_def)
  have n1: "?zero\<lparr>lastPulledAt := None\<rparr> = pull_of None (Num 1) None" by (simp add: pull_of_def)
  have n2: "?nan\<lparr>lastPulledAt := None\<rparr> = pull_of None (Num 1) None" by (simp add: pull_of_def)
  have h1': "lastPulledAt ?zero = Some (Num 0) \<or> lastPulledAt ?zero = Some NaN" using h1 by simp
  have h2': "lastPulledAt ?nan = Some (Num 0) \<or> lastPulledAt ?nan = Some NaN" using h2 by simp
  from falsy_watermark_is_full_sync [OF h1', of example_clock world_a]
  have a: "safeLastPulledAt ?zero = 1"
    and b: "pullChanges example_clock world_a ?zero =
      (Inr (response [to_wire stored_a] [] 1700000000000), world_a\<lparr>reads := 1\<rparr>)"
    by (simp_all only: n1 pull_plain_a)
  from falsy_watermark_is_full_sync [OF h2', of example_clock world_a]
  have c: "safeLastPulledAt ?nan = 1"
    and d: "pullChanges example_clock world_a ?nan =
      (Inr (response [to_wire stored_a] [] 1700000000000), world_a\<lparr>reads := 1\<rparr>)"
    by (simp_all only: n2 pull_plain_a)
  from h1 h2 a b c d show ?thesis by blast
qed

text \<open>
  Claim C10, as amended. A pull with a schema version of at least 2 and a migration
  string that is not empty and is not valid JSON fails with the \<^verbatim>\<open>SyntaxError\<close> of
  \<^verbatim>\<open>JSON.parse\<close>, before any response is built and with the world as it was; such
  inputs exist.
\<close>

theorem unparsable_migration_throws:
  assumes "schemaVersion inp = Num v" and "2 \<le> v"
    and "migration inp = Some text" and "text \<noteq> []"
    and "JSON_parse text = None"
  shows "pullChanges clk w inp = (Inl SyntaxError, w) \<and>
         (\<exists>inp'. pullChanges clk w inp' = (Inl SyntaxError, w))"
proof -
  have throws: "pullChanges clk w i = (Inl SyntaxError, w)"
    if "schemaVersion i = Num n" and "2 \<le> n" and "migration i = Some s" and "s \<noteq> []"
      and "JSON_parse s = None" for i n s
  proof -
    from that have "migration_override i = Inl SyntaxError"
      by (simp add: migration_override_def)
    then show ?thesis by (rule pullChanges_Inl)
  qed
  have "pullChanges clk w (pull_of None (Num 2) (Some ''{'')) = (Inl SyntaxError, w)"
    by (rule throws [of _ 2 "''{''"]) (simp_all add: pull_of_def JSON_parse_brace)
  with throws [OF assms] show ?thesis by blast
qed

text \<open>A migration string that is a lone opening brace.\<close>

theorem unparsable_migration_throws_witness:
  "schemaVersion (pull_of None (Num 2) (Some ''{'')) = Num 2 \<and>
   (2::int) \<le> 2 \<and>
   migration (pull_of None (Num 2) (Some ''{'')) = Some ''{'' \<and>
   ''{'' \<noteq> [] \<and>
   JSON_parse ''{'' = None \<and>
   pullChanges example_clock world_a (pull_of None (Num 2) (Some ''{'')) = (Inl SyntaxError, world_a)"
proof -
  let ?inp = "pull_of None (Num 2) (Some ''{'')"
  have h1: "schemaVersion ?inp = Num 2" by (simp add: pull_of_def)
  have h2: "(2::int) \<le> 2" by simp
  have h3: "migration ?inp = Some ''{''" by (simp add: pull_of_def)
  have h4: "''{'' \<noteq> []" by simp
  note h5 = JSON_parse_brace
  from unparsable_migration_throws [OF h1 h2 h3 h4 h5, of example_clock world_a]
  have "pullChanges example_clock world_a ?inp = (Inl SyntaxError, world_a)" by blast
  with h1 h2 h3 h4 h5 show ?thesis by blast
qed

text \<open>Against the claim as it stands: the empty string is not \<^verbatim>\<open>null\<close> and is not
  valid JSON, yet the pull does not parse it and answers.\<close>

theorem unparsable_migration_counterexample:
  "schemaVersion (pull_of None (Num 2) (Some [])) = Num 2 \<and>
   migration (pull_of None (Num 2) (Some [])) = Some [] \<and>
   JSON_parse [] = None \<and>
   pullChanges example_clock world_a (pull_of None (Num 2) (Some [])) =
     (Inr (response [to_wire stored_a] [] 1700000000000), world_a\<lparr>reads := 1\<rparr>)"
  using pull_empty_text_a JSON_parse_Nil
  by (simp add: pull_of_def)

end
